theory Spec2Isabelle
  imports Main "HOL-Library.Word"
begin

unbundle bit_operations_syntax

section \<open>Common types\<close>

text \<open>
  \<open>std::chrono::milliseconds\<close> is a duration whose tick count is a signed 64-bit
  integer.  It is modelled by its 64-bit pattern; \<open>count\<close> reads the pattern as the
  signed number the C++ accessor \<open>count()\<close> returns.  Building a duration from a
  \<open>std::uint64_t\<close> keeps the bit pattern.  \<open>std::uint64_t\<close> is a \<open>64 word\<close>, read
  with \<open>unat\<close>.
\<close>

type_synonym uint64_t = "64 word"
type_synonym milliseconds = "64 word"

definition count :: "milliseconds \<Rightarrow> int" where
  "count d = sint d"

section \<open>The string primitives used by the Linux strategy\<close>

text \<open>
  A \<open>std::string\<close> is a list of 8-bit characters.  \<open>npos\<close> is modelled by \<open>None\<close>.
  Exceptions of the standard library are values of type \<open>exn\<close>.
\<close>

datatype exn = Out_of_range | Invalid_argument

text \<open>
  \<open>s.find(key)\<close>: index at which the first occurrence of \<open>key\<close> in \<open>s\<close> starts
  (named \<open>find_str\<close>, since \<open>find\<close> is a function on lists already).
\<close>

fun find_str :: "string \<Rightarrow> string \<Rightarrow> nat option" where
  "find_str [] key = (if key = [] then Some 0 else None)"
| "find_str (c # cs) key =
     (if take (length key) (c # cs) = key then Some 0
      else map_option Suc (find_str cs key))"

text \<open>Index of the first character of \<open>s\<close> that is one of \<open>chars\<close>.\<close>

fun first_of :: "string \<Rightarrow> string \<Rightarrow> nat option" where
  "first_of [] chars = None"
| "first_of (c # cs) chars =
     (if c \<in> set chars then Some 0 else map_option Suc (first_of cs chars))"

text \<open>
  \<open>s.find_first_of(chars, pos)\<close>: the search considers only the indices from \<open>pos\<close> up
  to the end of \<open>s\<close>; a \<open>pos\<close> beyond the end gives \<open>npos\<close>.
\<close>

definition find_first_of :: "string \<Rightarrow> string \<Rightarrow> nat \<Rightarrow> nat option" where
  "find_first_of s chars pos = map_option (\<lambda>i. pos + i) (first_of (drop pos s) chars)"

text \<open>\<open>s.substr(pos)\<close> throws \<open>std::out_of_range\<close> when \<open>pos\<close> is beyond the end.\<close>

definition substr :: "string \<Rightarrow> nat \<Rightarrow> exn + string" where
  "substr s pos = (if length s < pos then Inl Out_of_range else Inr (drop pos s))"

definition is_space :: "char \<Rightarrow> bool" where
  "is_space c = (c \<in> set [CHR '' '', CHR 0x09, CHR 0x0A, CHR 0x0B, CHR 0x0C, CHR 0x0D])"

definition is_digit :: "char \<Rightarrow> bool" where
  "is_digit c = (c \<in> set ''0123456789'')"

definition digit_val :: "char \<Rightarrow> nat" where
  "digit_val c = of_char c - 48"

text \<open>The number a run of decimal digits denotes.\<close>

definition dec_value :: "string \<Rightarrow> nat" where
  "dec_value ds = foldl (\<lambda>n c. 10 * n + digit_val c) 0 ds"

text \<open>
  \<open>std::stoll(str)\<close> (base 10): skips leading white space, reads an optional sign and
  the longest run of decimal digits that follows.  It throws \<open>std::invalid_argument\<close>
  when there is no digit to convert and \<open>std::out_of_range\<close> when the number does not
  fit a \<open>long long\<close>.
\<close>

definition stoll :: "string \<Rightarrow> exn + int" where
  "stoll str =
     (let t = dropWhile is_space str;
          neg = (t \<noteq> [] \<and> hd t = CHR ''-'');
          u = (if t \<noteq> [] \<and> (hd t = CHR ''-'' \<or> hd t = CHR ''+'') then tl t else t);
          ds = takeWhile is_digit u;
          n = (if neg then - int (dec_value ds) else int (dec_value ds))
      in if ds = [] then Inl Invalid_argument
         else if n < - (2 ^ 63) \<or> 2 ^ 63 - 1 < n then Inl Out_of_range
         else Inr n)"

section \<open>Linux strategy: the status-line parser\<close>

datatype ParseResultType = KEY_NOT_FOUND | VALUE_NOT_FOUND | OK

record ParseStatusResult =
  resultType :: ParseResultType
  val :: uint64_t

text \<open>
  \<open>Parser::parseStatus\<close>.  The \<open>try\<close> block holds \<open>substr\<close> and \<open>stoll\<close>; the handler
  \<open>catch (...)\<close> turns every exception into the result \<open>{OK, 0}\<close>.  The cast of the
  \<open>long long\<close> to \<open>std::uint64_t\<close> is \<open>word_of_int\<close>.  The field \<open>value\<close> of the result
  is named \<open>val\<close> here.
\<close>

definition parseStatus :: "string \<Rightarrow> string \<Rightarrow> ParseStatusResult" where
  "parseStatus s key =
     (case find_str s key of
        Some foundKeyPos \<Rightarrow>
          (case find_first_of s ''0123456789'' (foundKeyPos + 6) of
             Some foundValuePos \<Rightarrow>
               (case substr s foundValuePos of
                  Inl e \<Rightarrow> \<lparr>resultType = OK, val = 0\<rparr>
                | Inr t \<Rightarrow>
                    (case stoll t of
                       Inl e \<Rightarrow> \<lparr>resultType = OK, val = 0\<rparr>
                     | Inr v \<Rightarrow> \<lparr>resultType = OK, val = word_of_int v\<rparr>))
           | None \<Rightarrow> \<lparr>resultType = VALUE_NOT_FOUND, val = 0\<rparr>)
      | None \<Rightarrow> \<lparr>resultType = KEY_NOT_FOUND, val = 0\<rparr>)"

section \<open>Linux strategy: the memory queries\<close>

text \<open>
  The stream \<open>is\<close> is the text of the pseudo-file that has not been read yet.
  \<open>std::getline\<close> fails when nothing is left; otherwise it takes the characters up to
  the next line feed, which it removes from the stream and drops.
\<close>

fun getline :: "string \<Rightarrow> (string \<times> string) option" where
  "getline [] = None"
| "getline (c # cs) =
     Some (takeWhile (\<lambda>x. x \<noteq> CHR 0x0A) (c # cs),
           drop 1 (dropWhile (\<lambda>x. x \<noteq> CHR 0x0A) (c # cs)))"

text \<open>
  The loop shared by \<open>getWorkingSetSize\<close> and \<open>getPrivateMemorySize\<close>, which differ in
  the key only: read a line, parse it, go on to the next line on \<open>KEY_NOT_FOUND\<close>,
  return the value times 1024 (in 64-bit unsigned arithmetic) otherwise, and return 0
  when \<open>getline\<close> fails.  The source defines \<open>Process::getWorkingSetSize\<close> and its
  four siblings once per platform; here each carries the name of its strategy in front.
\<close>

function scanStatus :: "string \<Rightarrow> string \<Rightarrow> uint64_t" where
  "scanStatus key is =
     (case getline is of
        None \<Rightarrow> 0
      | Some (s, is') \<Rightarrow>
          (let result = parseStatus s key
           in if resultType result = KEY_NOT_FOUND then scanStatus key is'
              else val result * 1024))"
  by pat_completeness auto
termination
proof (relation "measure (\<lambda>(key, is). length is)")
  show "wf (measure (\<lambda>(key, is). length is))" by simp
next
  fix key "is" :: string and x2 s is'
  assume g: "getline is = Some x2" and x: "(s, is') = x2"
  show "((key, is'), (key, is)) \<in> measure (\<lambda>(key, is). length is)"
  proof (cases "is")
    case Nil
    with g show ?thesis by simp
  next
    case (Cons c cs)
    have "length (dropWhile (\<lambda>x. x \<noteq> CHR 0x0A) (c # cs)) \<le> length (c # cs)"
      by (rule length_dropWhile_le)
    with g x Cons show ?thesis by auto
  qed
qed

declare scanStatus.simps [simp del]

text \<open>
  The argument is the pseudo-file \<open>/proc/self/status\<close>: \<open>None\<close> when it cannot be
  opened, its text otherwise.
\<close>

definition linux_getWorkingSetSize :: "string option \<Rightarrow> uint64_t" where
  "linux_getWorkingSetSize file =
     (case file of None \<Rightarrow> 0 | Some is \<Rightarrow> scanStatus ''VmRSS:'' is)"

definition linux_getPrivateMemorySize :: "string option \<Rightarrow> uint64_t" where
  "linux_getPrivateMemorySize file =
     (case file of None \<Rightarrow> 0 | Some is \<Rightarrow> scanStatus ''VmSize:'' is)"

text \<open>
  The lines of a pseudo-file, as successive calls of \<open>getline\<close> deliver them.  The
  queries do not use this function; the statements about "every line" and "later lines"
  do.
\<close>

function lines_of :: "string \<Rightarrow> string list" where
  "lines_of is = (case getline is of None \<Rightarrow> [] | Some (s, is') \<Rightarrow> s # lines_of is')"
  by pat_completeness auto
termination
proof (relation "measure length")
  show "wf (measure (length :: string \<Rightarrow> nat))" by simp
next
  fix "is" :: string and x2 s is'
  assume g: "getline is = Some x2" and x: "(s, is') = x2"
  show "(is', is) \<in> measure length"
  proof (cases "is")
    case Nil
    with g show ?thesis by simp
  next
    case (Cons c cs)
    have "length (dropWhile (\<lambda>x. x \<noteq> CHR 0x0A) (c # cs)) \<le> length (c # cs)"
      by (rule length_dropWhile_le)
    with g x Cons show ?thesis by auto
  qed
qed

declare lines_of.simps [simp del]

section \<open>Linux strategy: processor time\<close>

text \<open>
  \<open>struct timeval\<close> and the two fields of \<open>struct rusage\<close> the code reads.  \<open>tv_sec\<close>
  and \<open>tv_usec\<close> are signed 64-bit; the code casts both to \<open>std::uint64_t\<close>, which
  keeps the bits, so the fields are kept as bit patterns.
\<close>

record timeval =
  tv_sec :: "64 word"
  tv_usec :: "64 word"

record rusage =
  ru_utime :: timeval
  ru_stime :: timeval

record RUsageResult =
  sysTime :: milliseconds
  userTime :: milliseconds
  totalTime :: milliseconds

text \<open>
  The constructor \<open>RUsageResult(const rusage &)\<close>: products, sums and quotients are
  those of \<open>std::uint64_t\<close>; \<open>totalTime\<close> is the sum of the two durations.  That sum
  is a signed 64-bit addition, whose overflow C++ leaves undefined; the model takes the
  wrap-around of two's complement.
\<close>

definition mk_RUsageResult :: "rusage \<Rightarrow> RUsageResult" where
  "mk_RUsageResult ru =
     (let sysTime = tv_sec (ru_stime ru) * 1000 + tv_usec (ru_stime ru) div 1000;
          userTime = tv_sec (ru_utime ru) * 1000 + tv_usec (ru_utime ru) div 1000
      in \<lparr>sysTime = sysTime, userTime = userTime, totalTime = sysTime + userTime\<rparr>)"

text \<open>\<open>rusage ru{}\<close>: every field zero.\<close>

definition rusage_zero :: rusage where
  "rusage_zero =
     \<lparr>ru_utime = \<lparr>tv_sec = 0, tv_usec = 0\<rparr>, ru_stime = \<lparr>tv_sec = 0, tv_usec = 0\<rparr>\<rparr>"

text \<open>
  \<open>getrusage(RUSAGE_SELF, &ru)\<close>: the operating system's answer is \<open>None\<close> when the
  call fails, which leaves \<open>ru\<close> as it was.  The code ignores the return value.
\<close>

definition getrusage :: "rusage option \<Rightarrow> rusage \<Rightarrow> rusage" where
  "getrusage os ru = (case os of None \<Rightarrow> ru | Some r \<Rightarrow> r)"

definition linux_getKernelProcessorTime :: "rusage option \<Rightarrow> milliseconds" where
  "linux_getKernelProcessorTime os =
     RUsageResult.sysTime (mk_RUsageResult (getrusage os rusage_zero))"

definition linux_getUserProcessorTime :: "rusage option \<Rightarrow> milliseconds" where
  "linux_getUserProcessorTime os =
     RUsageResult.userTime (mk_RUsageResult (getrusage os rusage_zero))"

definition linux_getTotalProcessorTime :: "rusage option \<Rightarrow> milliseconds" where
  "linux_getTotalProcessorTime os =
     RUsageResult.totalTime (mk_RUsageResult (getrusage os rusage_zero))"

section \<open>Windows strategy\<close>

record FILETIME =
  dwLowDateTime :: "32 word"
  dwHighDateTime :: "32 word"

text \<open>The four time blocks \<open>GetProcessTimes\<close> writes.\<close>

record ProcessTimes =
  lpCreationTime :: FILETIME
  lpExitTime :: FILETIME
  lpKernelTime :: FILETIME
  lpUserTime :: FILETIME

definition FILETIME_zero :: FILETIME where
  "FILETIME_zero = \<lparr>dwLowDateTime = 0, dwHighDateTime = 0\<rparr>"

definition ProcessTimes_zero :: ProcessTimes where
  "ProcessTimes_zero =
     \<lparr>lpCreationTime = FILETIME_zero, lpExitTime = FILETIME_zero,
      lpKernelTime = FILETIME_zero, lpUserTime = FILETIME_zero\<rparr>"

text \<open>\<open>GetProcessTimes\<close>: on failure (\<open>None\<close>) the four blocks stay as initialised.\<close>

definition GetProcessTimes :: "ProcessTimes option \<Rightarrow> ProcessTimes \<Rightarrow> ProcessTimes" where
  "GetProcessTimes os t = (case os of None \<Rightarrow> t | Some r \<Rightarrow> r)"

text \<open>
  The expression the three queries share:
  \<open>static_cast<std::uint64_t>(t.dwLowDateTime) |
   (static_cast<std::uint64_t>(t.dwHighDateTime) << (sizeof(t.dwLowDateTime) * 8ULL))\<close>,
  where the size of a \<open>DWORD\<close> is 4 bytes.
\<close>

definition ticks :: "FILETIME \<Rightarrow> uint64_t" where
  "ticks t = ucast (dwLowDateTime t) OR push_bit (4 * 8) (ucast (dwHighDateTime t))"

definition win_getKernelProcessorTime :: "ProcessTimes option \<Rightarrow> milliseconds" where
  "win_getKernelProcessorTime os =
     (let kernelTime2 = ticks (lpKernelTime (GetProcessTimes os ProcessTimes_zero))
      in kernelTime2 div 10000)"

definition win_getUserProcessorTime :: "ProcessTimes option \<Rightarrow> milliseconds" where
  "win_getUserProcessorTime os =
     (let userTime2 = ticks (lpUserTime (GetProcessTimes os ProcessTimes_zero))
      in userTime2 div 10000)"

definition win_getTotalProcessorTime :: "ProcessTimes option \<Rightarrow> milliseconds" where
  "win_getTotalProcessorTime os =
     (let kernelTime2 = ticks (lpKernelTime (GetProcessTimes os ProcessTimes_zero));
          userTime2 = ticks (lpUserTime (GetProcessTimes os ProcessTimes_zero))
      in (kernelTime2 + userTime2) div 10000)"

text \<open>
  The two fields of \<open>PROCESS_MEMORY_COUNTERS_EX\<close> the code reads (\<open>SIZE_T\<close>, taken at
  64 bits).  On failure \<open>GetProcessMemoryInfo\<close> leaves the zero-initialised block.
\<close>

record PROCESS_MEMORY_COUNTERS_EX =
  WorkingSetSize :: "64 word"
  PrivateUsage :: "64 word"

definition GetProcessMemoryInfo ::
  "PROCESS_MEMORY_COUNTERS_EX option \<Rightarrow> PROCESS_MEMORY_COUNTERS_EX \<Rightarrow> PROCESS_MEMORY_COUNTERS_EX" where
  "GetProcessMemoryInfo os c = (case os of None \<Rightarrow> c | Some r \<Rightarrow> r)"

definition win_getWorkingSetSize :: "PROCESS_MEMORY_COUNTERS_EX option \<Rightarrow> uint64_t" where
  "win_getWorkingSetSize os =
     WorkingSetSize (GetProcessMemoryInfo os \<lparr>WorkingSetSize = 0, PrivateUsage = 0\<rparr>)"

definition win_getPrivateMemorySize :: "PROCESS_MEMORY_COUNTERS_EX option \<Rightarrow> uint64_t" where
  "win_getPrivateMemorySize os =
     PrivateUsage (GetProcessMemoryInfo os \<lparr>WorkingSetSize = 0, PrivateUsage = 0\<rparr>)"

section \<open>macOS strategy\<close>

record mach_timebase_info_data_t =
  numer :: "32 word"
  denom :: "32 word"

record rusage_info_v2 =
  ri_user_time :: "64 word"
  ri_system_time :: "64 word"

record ProcPidRUsageResult =
  sysTime :: milliseconds
  userTime :: milliseconds
  totalTime :: milliseconds

text \<open>A division by zero is undefined behaviour; the model makes it a fault.\<close>

datatype fault = Division_by_zero

text \<open>
  \<open>mach_timebase_info(&time_base)\<close>: on failure (\<open>None\<close>) \<open>time_base\<close> stays as it
  was.  The code ignores the return value.
\<close>

definition mach_timebase_info ::
  "mach_timebase_info_data_t option \<Rightarrow> mach_timebase_info_data_t \<Rightarrow> mach_timebase_info_data_t" where
  "mach_timebase_info os tb = (case os of None \<Rightarrow> tb | Some r \<Rightarrow> r)"

text \<open>
  The constructor \<open>ProcPidRUsageResult(const rusage_info_v2 &)\<close>.  Its function-local
  static \<open>time_base\<close> is state that outlives the call: the constructor takes its
  current value and returns the new one beside the result.  The static starts as zero
  and is filled in by the first call that finds its denominator zero.
\<close>

definition NSEC_TO_MSEC_RATIO :: uint64_t where
  "NSEC_TO_MSEC_RATIO = 1000000"

definition mk_ProcPidRUsageResult ::
  "mach_timebase_info_data_t option \<Rightarrow> mach_timebase_info_data_t \<Rightarrow> rusage_info_v2 \<Rightarrow>
   fault + (ProcPidRUsageResult \<times> mach_timebase_info_data_t)" where
  "mk_ProcPidRUsageResult os static rusage_info_data =
     (let time_base = (if denom static = 0 then mach_timebase_info os static else static)
      in if denom time_base = 0 then Inl Division_by_zero
         else
           (let sysTime =
                  ((ri_system_time rusage_info_data * ucast (numer time_base))
                     div ucast (denom time_base)) div NSEC_TO_MSEC_RATIO;
                userTime =
                  ((ri_user_time rusage_info_data * ucast (numer time_base))
                     div ucast (denom time_base)) div NSEC_TO_MSEC_RATIO
            in Inr (\<lparr>sysTime = sysTime, userTime = userTime, totalTime = sysTime + userTime\<rparr>,
                    time_base)))"

text \<open>\<open>proc_pid_rusage\<close>: on failure the zero-initialised block stays.\<close>

definition proc_pid_rusage :: "rusage_info_v2 option \<Rightarrow> rusage_info_v2 \<Rightarrow> rusage_info_v2" where
  "proc_pid_rusage os r = (case os of None \<Rightarrow> r | Some x \<Rightarrow> x)"

definition rusage_info_v2_zero :: rusage_info_v2 where
  "rusage_info_v2_zero = \<lparr>ri_user_time = 0, ri_system_time = 0\<rparr>"

text \<open>
  The three processor-time queries take the answer of \<open>mach_timebase_info\<close>, the value
  of the static \<open>time_base\<close> and the answer of \<open>proc_pid_rusage\<close>; they return the
  duration and the new value of the static.
\<close>

definition mac_getKernelProcessorTime ::
  "mach_timebase_info_data_t option \<Rightarrow> mach_timebase_info_data_t \<Rightarrow> rusage_info_v2 option \<Rightarrow>
   fault + (milliseconds \<times> mach_timebase_info_data_t)" where
  "mac_getKernelProcessorTime tb_os static os =
     (case mk_ProcPidRUsageResult tb_os static (proc_pid_rusage os rusage_info_v2_zero) of
        Inl f \<Rightarrow> Inl f
      | Inr (r, static') \<Rightarrow> Inr (ProcPidRUsageResult.sysTime r, static'))"

definition mac_getUserProcessorTime ::
  "mach_timebase_info_data_t option \<Rightarrow> mach_timebase_info_data_t \<Rightarrow> rusage_info_v2 option \<Rightarrow>
   fault + (milliseconds \<times> mach_timebase_info_data_t)" where
  "mac_getUserProcessorTime tb_os static os =
     (case mk_ProcPidRUsageResult tb_os static (proc_pid_rusage os rusage_info_v2_zero) of
        Inl f \<Rightarrow> Inl f
      | Inr (r, static') \<Rightarrow> Inr (ProcPidRUsageResult.userTime r, static'))"

definition mac_getTotalProcessorTime ::
  "mach_timebase_info_data_t option \<Rightarrow> mach_timebase_info_data_t \<Rightarrow> rusage_info_v2 option \<Rightarrow>
   fault + (milliseconds \<times> mach_timebase_info_data_t)" where
  "mac_getTotalProcessorTime tb_os static os =
     (case mk_ProcPidRUsageResult tb_os static (proc_pid_rusage os rusage_info_v2_zero) of
        Inl f \<Rightarrow> Inl f
      | Inr (r, static') \<Rightarrow> Inr (ProcPidRUsageResult.totalTime r, static'))"

text \<open>
  The two fields of \<open>proc_taskallinfo\<close> the code reads (\<open>info.ptinfo\<close>); on failure
  \<open>proc_pidinfo\<close> leaves the zero-initialised block.
\<close>

record proc_taskinfo =
  pti_virtual_size :: "64 word"
  pti_resident_size :: "64 word"

definition proc_pidinfo :: "proc_taskinfo option \<Rightarrow> proc_taskinfo \<Rightarrow> proc_taskinfo" where
  "proc_pidinfo os i = (case os of None \<Rightarrow> i | Some x \<Rightarrow> x)"

definition mac_getWorkingSetSize :: "proc_taskinfo option \<Rightarrow> uint64_t" where
  "mac_getWorkingSetSize os =
     pti_resident_size (proc_pidinfo os \<lparr>pti_virtual_size = 0, pti_resident_size = 0\<rparr>)"

definition mac_getPrivateMemorySize :: "proc_taskinfo option \<Rightarrow> uint64_t" where
  "mac_getPrivateMemorySize os =
     pti_virtual_size (proc_pidinfo os \<lparr>pti_virtual_size = 0, pti_resident_size = 0\<rparr>)"

section \<open>Fallback strategy\<close>

definition fallback_getKernelProcessorTime :: milliseconds where
  "fallback_getKernelProcessorTime = 0"

definition fallback_getUserProcessorTime :: milliseconds where
  "fallback_getUserProcessorTime = 0"

definition fallback_getTotalProcessorTime :: milliseconds where
  "fallback_getTotalProcessorTime = 0"

definition fallback_getWorkingSetSize :: uint64_t where
  "fallback_getWorkingSetSize = 0"

definition fallback_getPrivateMemorySize :: uint64_t where
  "fallback_getPrivateMemorySize = 0"

section \<open>Facts about the string primitives\<close>

lemma find_str_Some:
  "find_str s key = Some p \<Longrightarrow>
     p + length key \<le> length s \<and> take (length key) (drop p s) = key \<and>
     (\<forall>j<p. take (length key) (drop j s) \<noteq> key)"
proof (induction s arbitrary: p)
  case Nil
  then show ?case by (simp split: if_splits)
next
  case (Cons c cs)
  show ?case
  proof (cases "take (length key) (c # cs) = key")
    case True
    with Cons.prems have "p = 0" by simp
    moreover from True have "length key = min (length (c # cs)) (length key)"
      by (metis length_take)
    then have "length key \<le> length (c # cs)" by linarith
    ultimately show ?thesis using True by simp
  next
    case False
    with Cons.prems obtain p' where p': "find_str cs key = Some p'" and p: "p = Suc p'"
      by auto
    from Cons.IH [OF p'] have ih: "p' + length key \<le> length cs"
      "take (length key) (drop p' cs) = key"
      "\<forall>j<p'. take (length key) (drop j cs) \<noteq> key" by simp_all
    have "\<forall>j<Suc p'. take (length key) (drop j (c # cs)) \<noteq> key"
    proof (intro allI impI)
      fix j assume "j < Suc p'"
      then show "take (length key) (drop j (c # cs)) \<noteq> key"
        using False ih(3) by (cases j) auto
    qed
    with ih p show ?thesis by simp
  qed
qed

lemma find_str_None: "find_str s key = None \<Longrightarrow> s \<noteq> u @ key @ v"
proof (induction s arbitrary: u)
  case Nil
  then show ?case by (auto split: if_splits)
next
  case (Cons c cs)
  from Cons.prems have nt: "take (length key) (c # cs) \<noteq> key" and n: "find_str cs key = None"
    by (auto split: if_splits)
  show ?case
  proof (cases u)
    case Nil
    show ?thesis
    proof
      assume "c # cs = u @ key @ v"
      with Nil have "take (length key) (c # cs) = key" by simp
      with nt show False by simp
    qed
  next
    case (Cons a u')
    show ?thesis
    proof
      assume "c # cs = u @ key @ v"
      with Cons have "cs = u' @ key @ v" by simp
      with Cons.IH [OF n, of u'] show False by simp
    qed
  qed
qed

lemma find_str_None_iff: "find_str s key = None \<longleftrightarrow> (\<forall>u v. s \<noteq> u @ key @ v)"
proof
  assume "find_str s key = None"
  then show "\<forall>u v. s \<noteq> u @ key @ v" by (simp add: find_str_None)
next
  assume a: "\<forall>u v. s \<noteq> u @ key @ v"
  show "find_str s key = None"
  proof (rule ccontr)
    assume "find_str s key \<noteq> None"
    then obtain p where p: "find_str s key = Some p" by auto
    from find_str_Some [OF p] have "take (length key) (drop p s) = key" by simp
    then have "drop p s = key @ drop (length key) (drop p s)"
      by (metis append_take_drop_id)
    then have "s = take p s @ key @ drop (length key) (drop p s)"
      by (metis append_take_drop_id)
    with a show False by blast
  qed
qed

lemma first_of_Some:
  "first_of s chars = Some i \<Longrightarrow>
     i < length s \<and> s ! i \<in> set chars \<and> (\<forall>j<i. s ! j \<notin> set chars)"
proof (induction s arbitrary: i)
  case Nil
  then show ?case by simp
next
  case (Cons c cs)
  show ?case
  proof (cases "c \<in> set chars")
    case True
    with Cons.prems show ?thesis by simp
  next
    case False
    with Cons.prems obtain i' where i': "first_of cs chars = Some i'" and i: "i = Suc i'"
      by auto
    from Cons.IH [OF i'] have ih: "i' < length cs" "cs ! i' \<in> set chars"
      "\<forall>j<i'. cs ! j \<notin> set chars" by simp_all
    have "\<forall>j<Suc i'. (c # cs) ! j \<notin> set chars"
    proof (intro allI impI)
      fix j assume "j < Suc i'"
      then show "(c # cs) ! j \<notin> set chars" using False ih(3) by (cases j) auto
    qed
    with ih i show ?thesis by simp
  qed
qed

lemma first_of_None_iff: "first_of s chars = None \<longleftrightarrow> (\<forall>c\<in>set s. c \<notin> set chars)"
  by (induction s) auto

lemma find_first_of_Some:
  assumes "find_first_of s chars pos = Some q"
  shows "pos \<le> q \<and> q < length s \<and> s ! q \<in> set chars \<and>
         (\<forall>j. pos \<le> j \<and> j < q \<longrightarrow> s ! j \<notin> set chars)"
proof -
  from assms obtain i where i: "first_of (drop pos s) chars = Some i" and q: "q = pos + i"
    by (auto simp: find_first_of_def)
  from first_of_Some [OF i] have f: "i < length (drop pos s)" "drop pos s ! i \<in> set chars"
    "\<forall>j<i. drop pos s ! j \<notin> set chars" by simp_all
  from f(1) have len: "pos + i < length s" by simp
  then have nth: "\<And>j. j \<le> i \<Longrightarrow> drop pos s ! j = s ! (pos + j)" by simp
  have "\<forall>j. pos \<le> j \<and> j < q \<longrightarrow> s ! j \<notin> set chars"
  proof (intro allI impI)
    fix j assume j: "pos \<le> j \<and> j < q"
    then have "j - pos < i" using q by linarith
    with f(3) have "drop pos s ! (j - pos) \<notin> set chars" by simp
    moreover have "drop pos s ! (j - pos) = s ! (pos + (j - pos))"
      using nth [of "j - pos"] \<open>j - pos < i\<close> by simp
    ultimately show "s ! j \<notin> set chars" using j by simp
  qed
  moreover have "s ! q \<in> set chars" using f(2) nth [of i] q by simp
  ultimately show ?thesis using q len by simp
qed

lemma find_first_of_None_iff:
  "find_first_of s chars pos = None \<longleftrightarrow> (\<forall>j. pos \<le> j \<and> j < length s \<longrightarrow> s ! j \<notin> set chars)"
proof -
  have "(\<forall>c\<in>set (drop pos s). c \<notin> set chars) \<longleftrightarrow>
        (\<forall>j. pos \<le> j \<and> j < length s \<longrightarrow> s ! j \<notin> set chars)"
  proof
    assume a: "\<forall>c\<in>set (drop pos s). c \<notin> set chars"
    show "\<forall>j. pos \<le> j \<and> j < length s \<longrightarrow> s ! j \<notin> set chars"
    proof (intro allI impI)
      fix j assume j: "pos \<le> j \<and> j < length s"
      then have "j - pos < length (drop pos s)" by auto
      then have "drop pos s ! (j - pos) \<in> set (drop pos s)" by (rule nth_mem)
      moreover have "drop pos s ! (j - pos) = s ! j" using j by simp
      ultimately show "s ! j \<notin> set chars" using a by auto
    qed
  next
    assume a: "\<forall>j. pos \<le> j \<and> j < length s \<longrightarrow> s ! j \<notin> set chars"
    show "\<forall>c\<in>set (drop pos s). c \<notin> set chars"
    proof
      fix c assume "c \<in> set (drop pos s)"
      then obtain k where k: "k < length (drop pos s)" "drop pos s ! k = c"
        by (auto simp: in_set_conv_nth)
      then have "s ! (pos + k) = c" "pos + k < length s" by auto
      with a show "c \<notin> set chars" by auto
    qed
  qed
  then show ?thesis by (simp add: find_first_of_def first_of_None_iff)
qed


lemma digit_not_space_sign:
  "is_digit d \<Longrightarrow> \<not> is_space d \<and> d \<noteq> CHR ''-'' \<and> d \<noteq> CHR ''+''"
  by (auto simp: is_digit_def is_space_def)

lemma stoll_digit:
  assumes "is_digit d"
  shows "stoll (d # r) =
           (if dec_value (takeWhile is_digit (d # r)) < 2 ^ 63
            then Inr (int (dec_value (takeWhile is_digit (d # r))))
            else Inl Out_of_range)"
proof -
  from digit_not_space_sign [OF assms]
  have ns: "\<not> is_space d" and nm: "d \<noteq> CHR ''-''" and np: "d \<noteq> CHR ''+''"
    by simp_all
  define n where "n = dec_value (takeWhile is_digit (d # r))"
  have tw: "takeWhile is_digit (d # r) \<noteq> []" using assms by simp
  have "(int n < - (2 ^ 63) \<or> 2 ^ 63 - 1 < int n) \<longleftrightarrow> \<not> n < 2 ^ 63"
    by auto
  then show ?thesis
    using ns nm np tw unfolding stoll_def Let_def n_def [symmetric]
    by (simp add: n_def)
qed

lemma parseStatus_KEY_NOT_FOUND:
  "find_str s key = None \<Longrightarrow> parseStatus s key = \<lparr>resultType = KEY_NOT_FOUND, val = 0\<rparr>"
  by (simp add: parseStatus_def)

lemma resultType_KEY_NOT_FOUND_iff:
  "resultType (parseStatus s key) = KEY_NOT_FOUND \<longleftrightarrow> find_str s key = None"
  by (simp add: parseStatus_def split: option.splits sum.splits)

lemma parseStatus_VALUE_NOT_FOUND:
  "find_str s key = Some p \<Longrightarrow> find_first_of s ''0123456789'' (p + 6) = None \<Longrightarrow>
   parseStatus s key = \<lparr>resultType = VALUE_NOT_FOUND, val = 0\<rparr>"
  by (simp add: parseStatus_def)

lemma parseStatus_OK:
  assumes k: "find_str s key = Some p"
    and v: "find_first_of s ''0123456789'' (p + 6) = Some q"
  shows "parseStatus s key =
           \<lparr>resultType = OK,
            val = (if dec_value (takeWhile is_digit (drop q s)) < 2 ^ 63
                   then of_nat (dec_value (takeWhile is_digit (drop q s))) else 0)\<rparr>"
proof -
  from find_first_of_Some [OF v] have q: "q < length s" and d: "is_digit (s ! q)"
    by (simp_all add: is_digit_def)
  have dr: "drop q s = s ! q # drop (Suc q) s" using q by (simp add: Cons_nth_drop_Suc)
  have sub: "substr s q = Inr (drop q s)" using q by (simp add: substr_def)
  have st: "stoll (drop q s) =
           (if dec_value (takeWhile is_digit (drop q s)) < 2 ^ 63
            then Inr (int (dec_value (takeWhile is_digit (drop q s))))
            else Inl Out_of_range)"
    using stoll_digit [OF d, of "drop (Suc q) s"] dr by simp
  show ?thesis
    by (simp add: parseStatus_def k v sub st)
qed

lemma lines_of_Nil_iff: "lines_of is = [] \<longleftrightarrow> getline is = None"
  by (subst lines_of.simps) (simp split: option.splits)

lemma lines_of_Cons:
  "lines_of is = s # rest \<Longrightarrow> \<exists>is'. getline is = Some (s, is') \<and> lines_of is' = rest"
  by (subst (asm) lines_of.simps) (auto split: option.splits)

lemma scanStatus_skip:
  "getline is = Some (s, is') \<Longrightarrow> find_str s key = None \<Longrightarrow>
   scanStatus key is = scanStatus key is'"
  by (subst scanStatus.simps) (simp add: parseStatus_KEY_NOT_FOUND)

lemma scanStatus_hit:
  "getline is = Some (s, is') \<Longrightarrow> find_str s key \<noteq> None \<Longrightarrow>
   scanStatus key is = val (parseStatus s key) * 1024"
  by (subst scanStatus.simps) (auto simp: resultType_KEY_NOT_FOUND_iff Let_def)

lemma scanStatus_eof: "getline is = None \<Longrightarrow> scanStatus key is = 0"
  by (subst scanStatus.simps) simp

lemma scanStatus_first_hit:
  "lines_of is = pre @ s # post \<Longrightarrow> \<forall>l\<in>set pre. find_str l key = None \<Longrightarrow>
   find_str s key \<noteq> None \<Longrightarrow> scanStatus key is = val (parseStatus s key) * 1024"
proof (induction pre arbitrary: "is")
  case Nil
  then obtain is' where "getline is = Some (s, is')"
    using lines_of_Cons [of "is" s post] by auto
  with Nil.prems(3) show ?case by (simp add: scanStatus_hit)
next
  case (Cons l pre)
  from Cons.prems(1) obtain is' where g: "getline is = Some (l, is')"
    and r: "lines_of is' = pre @ s # post"
    using lines_of_Cons [of "is" l "pre @ s # post"] by auto
  from Cons.prems(2) have l: "find_str l key = None" and p: "\<forall>l\<in>set pre. find_str l key = None"
    by simp_all
  from Cons.IH [OF r p Cons.prems(3)] scanStatus_skip [OF g l] show ?case by simp
qed

lemma scanStatus_no_key:
  "\<forall>l\<in>set (lines_of is). find_str l key = None \<Longrightarrow> scanStatus key is = 0"
proof (induction "lines_of is" arbitrary: "is")
  case Nil
  then have "getline is = None" by (simp add: lines_of_Nil_iff [symmetric])
  then show ?case by (rule scanStatus_eof)
next
  case (Cons l rest)
  from Cons.hyps(2) obtain is' where g: "getline is = Some (l, is')"
    and r: "lines_of is' = rest"
    using lines_of_Cons [of "is" l rest] by auto
  from Cons.prems Cons.hyps(2) [symmetric] have l: "find_str l key = None"
    and p: "\<forall>l\<in>set (lines_of is'). find_str l key = None"
    using r by simp_all
  from Cons.hyps(1) [OF r [symmetric] p] scanStatus_skip [OF g l] show ?case by simp
qed

lemma scanStatus_cases:
  "scanStatus key is = 0 \<or>
   (\<exists>l. l \<in> set (lines_of is) \<and> scanStatus key is = val (parseStatus l key) * 1024)"
proof (induction "lines_of is" arbitrary: "is")
  case Nil
  then have "getline is = None" by (simp add: lines_of_Nil_iff [symmetric])
  then show ?case by (simp add: scanStatus_eof)
next
  case (Cons l rest)
  from Cons.hyps(2) obtain is' where g: "getline is = Some (l, is')"
    and r: "lines_of is' = rest"
    using lines_of_Cons [of "is" l rest] by auto
  show ?case
  proof (cases "find_str l key = None")
    case True
    from scanStatus_skip [OF g True] have e: "scanStatus key is = scanStatus key is'" .
    from Cons.hyps(1) [OF r [symmetric]]
    have "scanStatus key is' = 0 \<or>
          (\<exists>l. l \<in> set rest \<and> scanStatus key is' = val (parseStatus l key) * 1024)"
      using r by simp
    then show ?thesis
      unfolding e Cons.hyps(2) [symmetric] by auto
  next
    case False
    from scanStatus_hit [OF g False]
    have "scanStatus key is = val (parseStatus l key) * 1024" .
    moreover have "l \<in> set (lines_of is)" unfolding Cons.hyps(2) [symmetric] by simp
    ultimately show ?thesis by blast
  qed
qed

lemmas parser_eval =
  parseStatus_def find_first_of_def substr_def stoll_def is_space_def is_digit_def
  dec_value_def digit_val_def

section \<open>Facts about 64-bit durations\<close>

lemmas linux_time_defs =
  linux_getKernelProcessorTime_def linux_getUserProcessorTime_def
  linux_getTotalProcessorTime_def mk_RUsageResult_def getrusage_def Let_def

lemma sint_eq_unat64:
  fixes w :: "64 word"
  assumes "unat w < 2 ^ 63"
  shows "sint w = int (unat w)"
proof -
  from assms have "int (unat w) < int (2 ^ 63)" by (simp only: of_nat_less_iff)
  then have hi: "uint w < 2 ^ 63" by simp
  have lo: "- (2 ^ 63) \<le> uint w"
  proof -
    have "- (2 ^ 63 :: int) \<le> 0" by simp
    also have "0 \<le> uint w" by simp
    finally show ?thesis .
  qed
  from lo hi have "signed_take_bit 63 (uint w) = uint w"
    by (rule signed_take_bit_int_eq_self)
  then show ?thesis by (simp add: sint_uint)
qed

lemma unat_eq_sint64:
  fixes w :: "64 word"
  assumes "0 \<le> sint w"
  shows "int (unat w) = sint w"
proof -
  have "sint w < 2 ^ 63" using sint_lt [of w] by simp
  then have "sint w < 2 ^ 64" by simp
  with assms have "take_bit 64 (sint w) = sint w"
    by (intro take_bit_int_eq_self) simp_all
  then show ?thesis by (simp add: uint_sint [of w] uint_nat [symmetric])
qed

lemma unat_ms:
  fixes sec usec :: "64 word"
  shows "unat (sec * 1000 + usec div 1000) = (unat sec * 1000 + unat usec div 1000) mod 2 ^ 64"
  by (simp add: unat_word_ariths unat_div mod_simps)

lemma count_nonneg_unat:
  fixes w :: "64 word"
  shows "unat w < 2 ^ 63 \<Longrightarrow> count w = int (unat w)"
  by (simp add: count_def sint_eq_unat64)

lemma count_ms:
  fixes sec usec :: "64 word"
  assumes s: "0 \<le> sint sec" and u: "0 \<le> sint usec"
    and b: "sint sec * 1000 + sint usec div 1000 < 2 ^ 63"
  shows "count (sec * 1000 + usec div 1000) = sint sec * 1000 + sint usec div 1000"
proof -
  let ?n = "unat sec * 1000 + unat usec div 1000"
  have e: "int ?n = sint sec * 1000 + sint usec div 1000"
    using unat_eq_sint64 [OF s] unat_eq_sint64 [OF u] by (simp add: zdiv_int)
  with b have "int ?n < 2 ^ 63" by simp
  then have lt: "?n < 2 ^ 63" by (metis of_nat_less_iff of_nat_numeral of_nat_power)
  then have "?n mod 2 ^ 64 = ?n" by simp
  then have un: "unat (sec * 1000 + usec div 1000) = ?n" by (simp only: unat_ms)
  with lt have "count (sec * 1000 + usec div 1000) = int ?n"
    by (simp only: count_nonneg_unat)
  with e show ?thesis by simp
qed

lemma count_add:
  fixes a b :: "64 word"
  assumes a: "0 \<le> count a" and b: "0 \<le> count b" and s: "count a + count b < 2 ^ 63"
  shows "count (a + b) = count a + count b"
proof -
  from a have ua: "int (unat a) = count a"
    unfolding count_def by (rule unat_eq_sint64)
  from b have ub: "int (unat b) = count b"
    unfolding count_def by (rule unat_eq_sint64)
  have sum: "int (unat a + unat b) = count a + count b"
    using ua ub by (simp only: of_nat_add)
  with s have "int (unat a + unat b) < 2 ^ 63" by (simp only:)
  then have lt: "unat a + unat b < 2 ^ 63" by (metis of_nat_less_iff of_nat_numeral of_nat_power)
  then have "unat (a + b) = unat a + unat b" by (simp add: unat_word_ariths)
  with lt have "count (a + b) = int (unat a + unat b)" by (simp only: count_nonneg_unat)
  with sum show ?thesis by (simp only:)
qed

lemma bit_ticks:
  "bit (ticks ft) n =
     (if n < 32 then bit (dwLowDateTime ft) n else n < 64 \<and> bit (dwHighDateTime ft) (n - 32))"
  by (auto simp: ticks_def bit_or_iff bit_ucast_iff bit_push_bit_iff dest: bit_imp_le_length)

lemma ticks_add:
  "ticks t = ucast (dwLowDateTime t) + ucast (dwHighDateTime t) * 2 ^ 32"
proof -
  have "ucast (dwLowDateTime t) + push_bit 32 (ucast (dwHighDateTime t) :: 64 word)
        = ucast (dwLowDateTime t) OR push_bit 32 (ucast (dwHighDateTime t))"
    by (rule disjunctive_add)
       (auto simp: bit_ucast_iff bit_push_bit_iff dest: bit_imp_le_length)
  then show ?thesis by (simp add: ticks_def push_bit_eq_mult)
qed

lemma unat_ticks:
  "unat (ticks t) = unat (dwLowDateTime t) + 2 ^ 32 * unat (dwHighDateTime t)"
proof -
  have lo: "unat (dwLowDateTime t) < 2 ^ 32"
    using unsigned_less [of "dwLowDateTime t", where 'a = nat] by simp
  have hi: "unat (dwHighDateTime t) < 2 ^ 32"
    using unsigned_less [of "dwHighDateTime t", where 'a = nat] by simp
  from lo have "unat (dwLowDateTime t) < 2 ^ 64" by simp
  then have ul: "unat (ucast (dwLowDateTime t) :: 64 word) = unat (dwLowDateTime t)"
    by (simp add: unsigned_ucast_eq take_bit_nat_eq_self)
  from hi have "unat (dwHighDateTime t) < 2 ^ 64" by simp
  then have uh: "unat (ucast (dwHighDateTime t) :: 64 word) = unat (dwHighDateTime t)"
    by (simp add: unsigned_ucast_eq take_bit_nat_eq_self)
  from hi have "unat (dwHighDateTime t) \<le> 2 ^ 32 - 1" by simp
  then have "unat (dwHighDateTime t) * 2 ^ 32 \<le> (2 ^ 32 - 1) * 2 ^ 32" by (rule mult_le_mono1)
  then have hb: "unat (dwHighDateTime t) * 2 ^ 32 \<le> 2 ^ 64 - 2 ^ 32" by simp
  from hb have m: "unat (ucast (dwHighDateTime t) * 2 ^ 32 :: 64 word) = unat (dwHighDateTime t) * 2 ^ 32"
    by (simp add: unat_word_ariths uh)
  from m have m': "unat (ucast (dwHighDateTime t) * 4294967296 :: 64 word) =
      unat (dwHighDateTime t) * 4294967296" by simp
  from lo hb have "unat (dwLowDateTime t) + unat (dwHighDateTime t) * 2 ^ 32 < 2 ^ 64" by simp
  then show ?thesis
    unfolding ticks_add by (simp add: unat_word_ariths(1) ul m')
qed


text \<open>A later time block, word by word, is a later tick value.\<close>

lemma ticks_mono:
  assumes lo: "dwLowDateTime a \<le> dwLowDateTime b"
    and hi: "dwHighDateTime a \<le> dwHighDateTime b"
  shows "ticks a \<le> ticks b"
proof -
  from lo have l: "unat (dwLowDateTime a) \<le> unat (dwLowDateTime b)"
    by (simp only: word_le_nat_alt)
  from hi have "unat (dwHighDateTime a) \<le> unat (dwHighDateTime b)"
    by (simp only: word_le_nat_alt)
  then have "2 ^ 32 * unat (dwHighDateTime a) \<le> 2 ^ 32 * unat (dwHighDateTime b)"
    by (rule mult_le_mono2)
  with l have "unat (ticks a) \<le> unat (ticks b)"
    by (simp only: unat_ticks add_mono)
  then show ?thesis by (simp only: word_le_nat_alt)
qed

lemma count_div_10000:
  fixes x :: "64 word"
  shows "count (x div 10000) = int (unat x div 10000)"
proof -
  have "unat x < 2 ^ 64" using unsigned_less [of x, where 'a = nat] by simp
  then have "unat x div 10000 < 2 ^ 63" by simp
  then have "unat (x div 10000) < 2 ^ 63" by (simp add: unat_div)
  then have "count (x div 10000) = int (unat (x div 10000))" by (rule count_nonneg_unat)
  then show ?thesis by (simp only: unat_div) simp
qed

lemmas win_time_defs =
  win_getKernelProcessorTime_def win_getUserProcessorTime_def win_getTotalProcessorTime_def
  GetProcessTimes_def Let_def

lemma div_sum_bounds:
  fixes a b :: nat
  shows "a div 10000 + b div 10000 \<le> (a + b) div 10000 \<and>
         (a + b) div 10000 \<le> a div 10000 + b div 10000 + 1"
proof -
  have e: "(a + b) div 10000 = a div 10000 + b div 10000 + (a mod 10000 + b mod 10000) div 10000"
    by (rule div_add1_eq)
  have "a mod 10000 < 10000" "b mod 10000 < 10000" by simp_all
  then have "a mod 10000 + b mod 10000 < 2 * 10000" by linarith
  then have "(a mod 10000 + b mod 10000) div 10000 < 2"
    by (simp only: less_mult_imp_div_less)
  with e show ?thesis by linarith
qed

lemma mk_ProcPidRUsageResult_total:
  "mk_ProcPidRUsageResult tb_os static r = Inr (res, tb) \<Longrightarrow>
   ProcPidRUsageResult.totalTime res =
     ProcPidRUsageResult.sysTime res + ProcPidRUsageResult.userTime res"
  by (auto simp: mk_ProcPidRUsageResult_def Let_def split: if_splits)

lemmas mac_time_defs =
  mac_getKernelProcessorTime_def mac_getUserProcessorTime_def mac_getTotalProcessorTime_def













text \<open>The macOS conversion of one tick value, as the constructor writes it.\<close>

lemma mk_ProcPidRUsageResult_Inr:
  assumes "mk_ProcPidRUsageResult tb_os static r = Inr (res, s)"
  shows "denom s \<noteq> 0"
    and "ProcPidRUsageResult.sysTime res =
           ((ri_system_time r * ucast (numer s)) div ucast (denom s)) div 1000000"
    and "ProcPidRUsageResult.userTime res =
           ((ri_user_time r * ucast (numer s)) div ucast (denom s)) div 1000000"
    and "ProcPidRUsageResult.totalTime res =
           ProcPidRUsageResult.sysTime res + ProcPidRUsageResult.userTime res"
  using assms
  by (auto simp: mk_ProcPidRUsageResult_def NSEC_TO_MSEC_RATIO_def Let_def split: if_splits)






text \<open>
  Beyond the bounds of the monotonicity statement the 64-bit arithmetic wraps around.
  On Linux this takes \<open>tv_sec * 1000\<close> past \<open>2^63 - 1\<close>, about 292 million years of
  processor time.  On macOS with the time base 125/3 it takes \<open>ri_system_time * numer\<close>
  past \<open>2^64 - 1\<close>, about 195 years of processor time.
\<close>

lemma durations_wrap_beyond_bounds:
  "sint (tv_sec (ru_stime
     \<lparr>ru_utime = \<lparr>tv_sec = 0, tv_usec = 0\<rparr>,
      ru_stime = \<lparr>tv_sec = 9223372036854775, tv_usec = 0\<rparr>\<rparr>)) \<le>
   sint (tv_sec (ru_stime
     \<lparr>ru_utime = \<lparr>tv_sec = 0, tv_usec = 0\<rparr>,
      ru_stime = \<lparr>tv_sec = 9223372036854776, tv_usec = 0\<rparr>\<rparr>)) \<and>
   count (linux_getKernelProcessorTime
     (Some \<lparr>ru_utime = \<lparr>tv_sec = 0, tv_usec = 0\<rparr>,
            ru_stime = \<lparr>tv_sec = 9223372036854775, tv_usec = 0\<rparr>\<rparr>))
     = 9223372036854775000 \<and>
   count (linux_getKernelProcessorTime
     (Some \<lparr>ru_utime = \<lparr>tv_sec = 0, tv_usec = 0\<rparr>,
            ru_stime = \<lparr>tv_sec = 9223372036854776, tv_usec = 0\<rparr>\<rparr>))
     = - 9223372036854775616 \<and>
   \<not> count (linux_getKernelProcessorTime
     (Some \<lparr>ru_utime = \<lparr>tv_sec = 0, tv_usec = 0\<rparr>,
            ru_stime = \<lparr>tv_sec = 9223372036854775, tv_usec = 0\<rparr>\<rparr>)) \<le>
     count (linux_getKernelProcessorTime
     (Some \<lparr>ru_utime = \<lparr>tv_sec = 0, tv_usec = 0\<rparr>,
            ru_stime = \<lparr>tv_sec = 9223372036854776, tv_usec = 0\<rparr>\<rparr>)) \<and>
   mac_getKernelProcessorTime (Some \<lparr>numer = 125, denom = 3\<rparr>) \<lparr>numer = 0, denom = 0\<rparr>
     (Some \<lparr>ri_user_time = 0, ri_system_time = 147573952589676412\<rparr>)
     = Inr (6148914691236, \<lparr>numer = 125, denom = 3\<rparr>) \<and>
   mac_getKernelProcessorTime (Some \<lparr>numer = 125, denom = 3\<rparr>) \<lparr>numer = 0, denom = 0\<rparr>
     (Some \<lparr>ri_user_time = 0, ri_system_time = 147573952589676413\<rparr>)
     = Inr (0, \<lparr>numer = 125, denom = 3\<rparr>) \<and>
   \<not> count (6148914691236 :: milliseconds) \<le> count (0 :: milliseconds)"
  by (simp add: linux_time_defs count_def mac_time_defs mk_ProcPidRUsageResult_def
      mach_timebase_info_def proc_pid_rusage_def NSEC_TO_MSEC_RATIO_def)

lemma mk_ProcPidRUsageResult_ok:
  assumes "denom (if denom static = 0 then mach_timebase_info tb_os static else static) \<noteq> 0"
  shows "\<exists>res. mk_ProcPidRUsageResult tb_os static r =
           Inr (res, if denom static = 0 then mach_timebase_info tb_os static else static)"
  using assms by (simp add: mk_ProcPidRUsageResult_def Let_def)

lemma mk_ProcPidRUsageResult_zero:
  assumes "mk_ProcPidRUsageResult tb_os static rusage_info_v2_zero = Inr (res, s)"
  shows "ProcPidRUsageResult.sysTime res = 0 \<and> ProcPidRUsageResult.userTime res = 0 \<and>
         ProcPidRUsageResult.totalTime res = 0"
  using mk_ProcPidRUsageResult_Inr [OF assms]
  by (simp add: rusage_info_v2_zero_def)

section \<open>The statements of the specification\<close>

subsection \<open>C1\<close>

text \<open>
  Claim C1, as amended.  From one snapshot of the operating system, the Linux, the
  macOS and the fallback strategy return a total that is the sum of the kernel and the
  user duration.  The Windows strategy adds the two raw tick values first and converts
  the sum: its total is \<open>(kernel ticks + user ticks) div 10000\<close>, which, when the sum of
  the ticks fits 64 bits, is the kernel milliseconds plus the user milliseconds or one
  millisecond more.
\<close>

theorem total_processor_time_relation:
  "linux_getTotalProcessorTime los =
     linux_getKernelProcessorTime los + linux_getUserProcessorTime los \<and>
   (\<forall>t s'. mac_getTotalProcessorTime tb_os static mos = Inr (t, s') \<longrightarrow>
      (\<exists>k u. mac_getKernelProcessorTime tb_os static mos = Inr (k, s') \<and>
             mac_getUserProcessorTime tb_os static mos = Inr (u, s') \<and> t = k + u)) \<and>
   fallback_getTotalProcessorTime =
     fallback_getKernelProcessorTime + fallback_getUserProcessorTime \<and>
   win_getTotalProcessorTime (Some wt) =
     (ticks (lpKernelTime wt) + ticks (lpUserTime wt)) div 10000 \<and>
   (unat (ticks (lpKernelTime wt)) + unat (ticks (lpUserTime wt)) < 2 ^ 64 \<longrightarrow>
      unat (win_getKernelProcessorTime (Some wt)) + unat (win_getUserProcessorTime (Some wt))
        \<le> unat (win_getTotalProcessorTime (Some wt)) \<and>
      unat (win_getTotalProcessorTime (Some wt))
        \<le> unat (win_getKernelProcessorTime (Some wt)) +
           unat (win_getUserProcessorTime (Some wt)) + 1)"
proof -
  have linux: "linux_getTotalProcessorTime los =
     linux_getKernelProcessorTime los + linux_getUserProcessorTime los"
    by (simp add: linux_time_defs)
  have mac: "\<exists>k u. mac_getKernelProcessorTime tb_os static mos = Inr (k, s') \<and>
             mac_getUserProcessorTime tb_os static mos = Inr (u, s') \<and> t = k + u"
    if "mac_getTotalProcessorTime tb_os static mos = Inr (t, s')" for t s'
  proof -
    from that obtain res
      where r: "mk_ProcPidRUsageResult tb_os static (proc_pid_rusage mos rusage_info_v2_zero)
                  = Inr (res, s')"
        and t: "t = ProcPidRUsageResult.totalTime res"
      by (auto simp: mac_getTotalProcessorTime_def split: sum.splits)
    from r have "mac_getKernelProcessorTime tb_os static mos =
        Inr (ProcPidRUsageResult.sysTime res, s')"
      and "mac_getUserProcessorTime tb_os static mos =
        Inr (ProcPidRUsageResult.userTime res, s')"
      by (simp_all add: mac_time_defs)
    with t mk_ProcPidRUsageResult_total [OF r] show ?thesis by simp
  qed
  have fallback: "fallback_getTotalProcessorTime =
     fallback_getKernelProcessorTime + fallback_getUserProcessorTime"
    by (simp add: fallback_getTotalProcessorTime_def fallback_getKernelProcessorTime_def
        fallback_getUserProcessorTime_def)
  have wt: "win_getTotalProcessorTime (Some wt) =
     (ticks (lpKernelTime wt) + ticks (lpUserTime wt)) div 10000"
    by (simp add: win_time_defs)
  have wb: "unat (win_getKernelProcessorTime (Some wt)) + unat (win_getUserProcessorTime (Some wt))
        \<le> unat (win_getTotalProcessorTime (Some wt)) \<and>
      unat (win_getTotalProcessorTime (Some wt))
        \<le> unat (win_getKernelProcessorTime (Some wt)) +
           unat (win_getUserProcessorTime (Some wt)) + 1"
    if "unat (ticks (lpKernelTime wt)) + unat (ticks (lpUserTime wt)) < 2 ^ 64"
  proof -
    from that have "unat (ticks (lpKernelTime wt) + ticks (lpUserTime wt)) =
        unat (ticks (lpKernelTime wt)) + unat (ticks (lpUserTime wt))"
      by (simp add: unat_word_ariths(1))
    then have "unat (win_getTotalProcessorTime (Some wt)) =
        (unat (ticks (lpKernelTime wt)) + unat (ticks (lpUserTime wt))) div 10000"
      by (simp add: wt unat_div)
    moreover have "unat (win_getKernelProcessorTime (Some wt)) =
        unat (ticks (lpKernelTime wt)) div 10000"
      by (simp add: win_time_defs unat_div)
    moreover have "unat (win_getUserProcessorTime (Some wt)) =
        unat (ticks (lpUserTime wt)) div 10000"
      by (simp add: win_time_defs unat_div)
    ultimately show ?thesis
      using div_sum_bounds [of "unat (ticks (lpKernelTime wt))" "unat (ticks (lpUserTime wt))"]
      by (simp only:)
  qed
  from linux mac fallback wt wb show ?thesis by blast
qed

theorem total_processor_time_relation_witness:
  "mac_getTotalProcessorTime (Some \<lparr>numer = 125, denom = 3\<rparr>) \<lparr>numer = 0, denom = 0\<rparr>
     (Some \<lparr>ri_user_time = 48000000, ri_system_time = 24000000\<rparr>)
     = Inr (3000, \<lparr>numer = 125, denom = 3\<rparr>) \<and>
   mac_getKernelProcessorTime (Some \<lparr>numer = 125, denom = 3\<rparr>) \<lparr>numer = 0, denom = 0\<rparr>
     (Some \<lparr>ri_user_time = 48000000, ri_system_time = 24000000\<rparr>)
     = Inr (1000, \<lparr>numer = 125, denom = 3\<rparr>) \<and>
   mac_getUserProcessorTime (Some \<lparr>numer = 125, denom = 3\<rparr>) \<lparr>numer = 0, denom = 0\<rparr>
     (Some \<lparr>ri_user_time = 48000000, ri_system_time = 24000000\<rparr>)
     = Inr (2000, \<lparr>numer = 125, denom = 3\<rparr>) \<and>
   win_getTotalProcessorTime
     (Some \<lparr>lpCreationTime = FILETIME_zero, lpExitTime = FILETIME_zero,
            lpKernelTime = \<lparr>dwLowDateTime = 25000, dwHighDateTime = 0\<rparr>,
            lpUserTime = \<lparr>dwLowDateTime = 35000, dwHighDateTime = 0\<rparr>\<rparr>) = 6 \<and>
   unat (win_getKernelProcessorTime
     (Some \<lparr>lpCreationTime = FILETIME_zero, lpExitTime = FILETIME_zero,
            lpKernelTime = \<lparr>dwLowDateTime = 25000, dwHighDateTime = 0\<rparr>,
            lpUserTime = \<lparr>dwLowDateTime = 35000, dwHighDateTime = 0\<rparr>\<rparr>)) +
   unat (win_getUserProcessorTime
     (Some \<lparr>lpCreationTime = FILETIME_zero, lpExitTime = FILETIME_zero,
            lpKernelTime = \<lparr>dwLowDateTime = 25000, dwHighDateTime = 0\<rparr>,
            lpUserTime = \<lparr>dwLowDateTime = 35000, dwHighDateTime = 0\<rparr>\<rparr>)) + 1 = 6"
proof -
  let ?tb = "\<lparr>numer = 125, denom = 3\<rparr>"
  let ?z = "\<lparr>numer = 0, denom = 0\<rparr>"
  let ?r = "\<lparr>ri_user_time = 48000000, ri_system_time = 24000000\<rparr>"
  let ?wt = "\<lparr>lpCreationTime = FILETIME_zero, lpExitTime = FILETIME_zero,
            lpKernelTime = \<lparr>dwLowDateTime = 25000, dwHighDateTime = 0\<rparr>,
            lpUserTime = \<lparr>dwLowDateTime = 35000, dwHighDateTime = 0\<rparr>\<rparr>"
  have mt: "mac_getTotalProcessorTime (Some ?tb) ?z (Some ?r) = Inr (3000, ?tb)"
    by (simp add: mac_time_defs mk_ProcPidRUsageResult_def mach_timebase_info_def
        proc_pid_rusage_def NSEC_TO_MSEC_RATIO_def)
  have mk: "mac_getKernelProcessorTime (Some ?tb) ?z (Some ?r) = Inr (1000, ?tb)"
    by (simp add: mac_time_defs mk_ProcPidRUsageResult_def mach_timebase_info_def
        proc_pid_rusage_def NSEC_TO_MSEC_RATIO_def)
  have wh: "unat (ticks (lpKernelTime ?wt)) + unat (ticks (lpUserTime ?wt)) < 2 ^ 64"
    by (simp add: ticks_def)
  have wtot: "win_getTotalProcessorTime (Some ?wt) = 6"
    by (simp add: win_time_defs ticks_def)
  from total_processor_time_relation [of "None" "Some ?tb" ?z "Some ?r" ?wt] mt wh
  have m: "\<exists>k u. mac_getKernelProcessorTime (Some ?tb) ?z (Some ?r) = Inr (k, ?tb) \<and>
             mac_getUserProcessorTime (Some ?tb) ?z (Some ?r) = Inr (u, ?tb) \<and> 3000 = k + u"
    and w: "unat (win_getTotalProcessorTime (Some ?wt))
        \<le> unat (win_getKernelProcessorTime (Some ?wt)) +
           unat (win_getUserProcessorTime (Some ?wt)) + 1"
    by blast+
  from m mk have mu: "mac_getUserProcessorTime (Some ?tb) ?z (Some ?r) = Inr (2000, ?tb)"
    by auto
  have wsum: "unat (win_getKernelProcessorTime (Some ?wt)) +
      unat (win_getUserProcessorTime (Some ?wt)) + 1 = 6"
    by (simp add: win_time_defs ticks_def)
  from mt mk mu wtot wsum show ?thesis by (simp only:)
qed

text \<open>
  Claim C1 as stated has the Windows total equal to kernel plus user milliseconds.  With
  5000 kernel ticks and 5000 user ticks both are 0 milliseconds and the total is 1.
\<close>

theorem windows_total_counterexample:
  "win_getKernelProcessorTime
     (Some \<lparr>lpCreationTime = FILETIME_zero, lpExitTime = FILETIME_zero,
            lpKernelTime = \<lparr>dwLowDateTime = 5000, dwHighDateTime = 0\<rparr>,
            lpUserTime = \<lparr>dwLowDateTime = 5000, dwHighDateTime = 0\<rparr>\<rparr>) = 0 \<and>
   win_getUserProcessorTime
     (Some \<lparr>lpCreationTime = FILETIME_zero, lpExitTime = FILETIME_zero,
            lpKernelTime = \<lparr>dwLowDateTime = 5000, dwHighDateTime = 0\<rparr>,
            lpUserTime = \<lparr>dwLowDateTime = 5000, dwHighDateTime = 0\<rparr>\<rparr>) = 0 \<and>
   win_getTotalProcessorTime
     (Some \<lparr>lpCreationTime = FILETIME_zero, lpExitTime = FILETIME_zero,
            lpKernelTime = \<lparr>dwLowDateTime = 5000, dwHighDateTime = 0\<rparr>,
            lpUserTime = \<lparr>dwLowDateTime = 5000, dwHighDateTime = 0\<rparr>\<rparr>) = 1 \<and>
   win_getTotalProcessorTime
     (Some \<lparr>lpCreationTime = FILETIME_zero, lpExitTime = FILETIME_zero,
            lpKernelTime = \<lparr>dwLowDateTime = 5000, dwHighDateTime = 0\<rparr>,
            lpUserTime = \<lparr>dwLowDateTime = 5000, dwHighDateTime = 0\<rparr>\<rparr>) \<noteq>
   win_getKernelProcessorTime
     (Some \<lparr>lpCreationTime = FILETIME_zero, lpExitTime = FILETIME_zero,
            lpKernelTime = \<lparr>dwLowDateTime = 5000, dwHighDateTime = 0\<rparr>,
            lpUserTime = \<lparr>dwLowDateTime = 5000, dwHighDateTime = 0\<rparr>\<rparr>) +
   win_getUserProcessorTime
     (Some \<lparr>lpCreationTime = FILETIME_zero, lpExitTime = FILETIME_zero,
            lpKernelTime = \<lparr>dwLowDateTime = 5000, dwHighDateTime = 0\<rparr>,
            lpUserTime = \<lparr>dwLowDateTime = 5000, dwHighDateTime = 0\<rparr>\<rparr>)"
  by (simp add: win_time_defs ticks_def)

subsection \<open>C2\<close>

text \<open>
  Claim C2, as amended.  Let the key be \<open>VmRSS:\<close> or \<open>VmSize:\<close>, let its first
  occurrence in the line start at index \<open>p\<close>, and let the line hold a digit at index
  \<open>p + 6\<close> or later.  The search for the value starts 6 characters past the start of
  the key: right after \<open>VmRSS:\<close>, and on the colon of \<open>VmSize:\<close>.  For both keys the
  digit it finds is the first digit at or after the end of the key.  The longest run of
  digits starting there is read by \<open>stoll\<close> as a signed 64-bit number: the result is
  \<open>OK\<close> with the number the run denotes when that is at most \<open>2^63 - 1\<close>, and \<open>OK\<close>
  with 0 when the run denotes a larger number.
\<close>

theorem digit_run_after_key:
  assumes key: "key = ''VmRSS:'' \<or> key = ''VmSize:''"
    and k: "find_str s key = Some p"
    and d: "\<exists>i. p + 6 \<le> i \<and> i < length s \<and> is_digit (s ! i)"
  shows "\<exists>q. find_first_of s ''0123456789'' (p + 6) = Some q \<and>
             p + length key \<le> q \<and> q < length s \<and> is_digit (s ! q) \<and>
             (\<forall>i. p + length key \<le> i \<and> i < q \<longrightarrow> \<not> is_digit (s ! i)) \<and>
             parseStatus s key =
               \<lparr>resultType = OK,
                val = (if dec_value (takeWhile is_digit (drop q s)) < 2 ^ 63
                       then of_nat (dec_value (takeWhile is_digit (drop q s))) else 0)\<rparr>"
proof -
  from d have "find_first_of s ''0123456789'' (p + 6) \<noteq> None"
    unfolding find_first_of_None_iff is_digit_def by blast
  then obtain q where v: "find_first_of s ''0123456789'' (p + 6) = Some q" by auto
  from find_first_of_Some [OF v]
  have lo: "p + 6 \<le> q" and hi: "q < length s" and dq: "is_digit (s ! q)"
    and first: "\<forall>j. p + 6 \<le> j \<and> j < q \<longrightarrow> \<not> is_digit (s ! j)"
    by (simp_all add: is_digit_def)
  have after: "p + length key \<le> q"
  proof (cases "key = ''VmRSS:''")
    case True
    with lo show ?thesis by simp
  next
    case False
    with key have ks: "key = ''VmSize:''" by simp
    from find_str_Some [OF k] have len: "p + length key \<le> length s"
      and tk: "take (length key) (drop p s) = key" by simp_all
    from tk have "take (length key) (drop p s) ! 6 = key ! 6" by simp
    with ks len have "s ! (p + 6) = CHR '':''" by simp
    then have "\<not> is_digit (s ! (p + 6))" by (simp add: is_digit_def)
    with dq have "q \<noteq> p + 6" by auto
    with lo ks show ?thesis by simp
  qed
  have first': "\<forall>i. p + length key \<le> i \<and> i < q \<longrightarrow> \<not> is_digit (s ! i)"
  proof (intro allI impI)
    fix i assume i: "p + length key \<le> i \<and> i < q"
    from key have "6 \<le> length key" by auto
    with i have "p + 6 \<le> i \<and> i < q" by linarith
    with first show "\<not> is_digit (s ! i)" by blast
  qed
  from parseStatus_OK [OF k v] v after hi dq first' show ?thesis by blast
qed

theorem digit_run_after_key_witness:
  "find_str ''VmSize:    2048 kB'' ''VmSize:'' = Some 0 \<and>
   find_first_of ''VmSize:    2048 kB'' ''0123456789'' 6 = Some 11 \<and>
   takeWhile is_digit (drop 11 ''VmSize:    2048 kB'') = ''2048'' \<and>
   parseStatus ''VmSize:    2048 kB'' ''VmSize:'' = \<lparr>resultType = OK, val = 2048\<rparr>"
proof -
  let ?s = "''VmSize:    2048 kB''"
  have key: "''VmSize:'' = ''VmRSS:'' \<or> ''VmSize:'' = ''VmSize:''" by simp
  have k: "find_str ?s ''VmSize:'' = Some 0" by simp
  have "0 + 6 \<le> (11::nat) \<and> 11 < length ?s \<and> is_digit (?s ! 11)"
    by (simp add: is_digit_def)
  then have d: "\<exists>i. 0 + 6 \<le> i \<and> i < length ?s \<and> is_digit (?s ! i)" by (rule exI)
  have v: "find_first_of ?s ''0123456789'' (0 + 6) = Some 11" by (simp add: find_first_of_def)
  have run: "takeWhile is_digit (drop 11 ?s) = ''2048''" by (simp add: is_digit_def)
  have dv: "dec_value ''2048'' = 2048" by (simp add: dec_value_def digit_val_def)
  from digit_run_after_key [OF key k d] obtain q
    where "find_first_of ?s ''0123456789'' (0 + 6) = Some q"
      and "parseStatus ?s ''VmSize:'' =
             \<lparr>resultType = OK,
              val = (if dec_value (takeWhile is_digit (drop q ?s)) < 2 ^ 63
                     then of_nat (dec_value (takeWhile is_digit (drop q ?s))) else 0)\<rparr>"
    by blast
  with v have "parseStatus ?s ''VmSize:'' =
             \<lparr>resultType = OK,
              val = (if dec_value (takeWhile is_digit (drop 11 ?s)) < 2 ^ 63
                     then of_nat (dec_value (takeWhile is_digit (drop 11 ?s))) else 0)\<rparr>"
    by simp
  then have "parseStatus ?s ''VmSize:'' = \<lparr>resultType = OK, val = 2048\<rparr>"
    unfolding run dv by simp
  with k v run show ?thesis by simp
qed

text \<open>
  Claim C2 as stated reads the digit run as an unsigned integer.  The run of the line
  below denotes \<open>2^63\<close>, which an unsigned 64-bit integer holds; the parser returns 0.
\<close>

theorem digit_run_unsigned_counterexample:
  "find_str ''VmRSS: 9223372036854775808 kB'' ''VmRSS:'' = Some 0 \<and>
   find_first_of ''VmRSS: 9223372036854775808 kB'' ''0123456789'' 6 = Some 7 \<and>
   takeWhile is_digit (drop 7 ''VmRSS: 9223372036854775808 kB'') = ''9223372036854775808'' \<and>
   dec_value ''9223372036854775808'' = 9223372036854775808 \<and>
   (9223372036854775808 :: nat) < 2 ^ 64 \<and>
   parseStatus ''VmRSS: 9223372036854775808 kB'' ''VmRSS:'' = \<lparr>resultType = OK, val = 0\<rparr> \<and>
   unat (val (parseStatus ''VmRSS: 9223372036854775808 kB'' ''VmRSS:'')) \<noteq>
     dec_value (takeWhile is_digit (drop 7 ''VmRSS: 9223372036854775808 kB''))"
proof -
  let ?s = "''VmRSS: 9223372036854775808 kB''"
  have k: "find_str ?s ''VmRSS:'' = Some 0" by simp
  have v: "find_first_of ?s ''0123456789'' 6 = Some 7" by (simp add: find_first_of_def)
  have run: "takeWhile is_digit (drop 7 ?s) = ''9223372036854775808''"
    by (simp add: is_digit_def)
  have dv: "dec_value ''9223372036854775808'' = 9223372036854775808"
    by (simp add: dec_value_def digit_val_def)
  have p: "parseStatus ?s ''VmRSS:'' = \<lparr>resultType = OK, val = 0\<rparr>"
    by (simp add: parser_eval)
  have ne: "unat (val (parseStatus ?s ''VmRSS:'')) \<noteq> dec_value (takeWhile is_digit (drop 7 ?s))"
    unfolding p run dv by simp
  from k v run dv p ne show ?thesis by simp
qed

subsection \<open>C3\<close>

text \<open>
  Where the code keeps the fail-soft contract.
  \<^item> The fallback queries are the constant 0.
  \<^item> The Windows and the Linux queries are total functions of the answers of the
    operating system.  A failed call (\<open>None\<close>) leaves the zero-initialised block, and
    each query returns 0; a pseudo-file that cannot be opened gives 0.
  \<^item> In the parser, \<open>substr\<close> never throws, and when \<open>stoll\<close> throws the handler
    returns \<open>OK\<close> with 0.  For every state of the pseudo-file a Linux memory query
    returns 0 or the value of one of the lines times 1024.
  \<^item> The macOS memory queries return 0 on failure.  The macOS processor-time queries
    return a value, 0 when \<open>proc_pid_rusage\<close> fails, when the denominator of the time
    base is not zero once the initialisation has run.
\<close>

lemma queries_return_normally:
  "(fallback_getKernelProcessorTime = 0 \<and> fallback_getUserProcessorTime = 0 \<and>
    fallback_getTotalProcessorTime = 0 \<and> fallback_getWorkingSetSize = 0 \<and>
    fallback_getPrivateMemorySize = 0) \<and>
   (win_getKernelProcessorTime None = 0 \<and> win_getUserProcessorTime None = 0 \<and>
    win_getTotalProcessorTime None = 0 \<and> win_getWorkingSetSize None = 0 \<and>
    win_getPrivateMemorySize None = 0) \<and>
   (linux_getKernelProcessorTime None = 0 \<and> linux_getUserProcessorTime None = 0 \<and>
    linux_getTotalProcessorTime None = 0 \<and> linux_getWorkingSetSize None = 0 \<and>
    linux_getPrivateMemorySize None = 0) \<and>
   (\<forall>p q e. find_str s key = Some p \<and> find_first_of s ''0123456789'' (p + 6) = Some q \<and>
      stoll (drop q s) = Inl e \<longrightarrow>
      substr s q = Inr (drop q s) \<and> parseStatus s key = \<lparr>resultType = OK, val = 0\<rparr>) \<and>
   (linux_getWorkingSetSize file = 0 \<or>
    (\<exists>content l. file = Some content \<and> l \<in> set (lines_of content) \<and>
       linux_getWorkingSetSize file = val (parseStatus l ''VmRSS:'') * 1024)) \<and>
   (linux_getPrivateMemorySize file = 0 \<or>
    (\<exists>content l. file = Some content \<and> l \<in> set (lines_of content) \<and>
       linux_getPrivateMemorySize file = val (parseStatus l ''VmSize:'') * 1024)) \<and>
   (mac_getWorkingSetSize None = 0 \<and> mac_getPrivateMemorySize None = 0) \<and>
   (denom (if denom static = 0 then mach_timebase_info tb_os static else static) \<noteq> 0 \<longrightarrow>
      (\<exists>k u t s'.
         mac_getKernelProcessorTime tb_os static mos = Inr (k, s') \<and>
         mac_getUserProcessorTime tb_os static mos = Inr (u, s') \<and>
         mac_getTotalProcessorTime tb_os static mos = Inr (t, s') \<and>
         (mos = None \<longrightarrow> k = 0 \<and> u = 0 \<and> t = 0)))"
proof -
  have fallback: "fallback_getKernelProcessorTime = 0 \<and> fallback_getUserProcessorTime = 0 \<and>
    fallback_getTotalProcessorTime = 0 \<and> fallback_getWorkingSetSize = 0 \<and>
    fallback_getPrivateMemorySize = 0"
    by (simp add: fallback_getKernelProcessorTime_def fallback_getUserProcessorTime_def
        fallback_getTotalProcessorTime_def fallback_getWorkingSetSize_def
        fallback_getPrivateMemorySize_def)
  have win: "win_getKernelProcessorTime None = 0 \<and> win_getUserProcessorTime None = 0 \<and>
    win_getTotalProcessorTime None = 0 \<and> win_getWorkingSetSize None = 0 \<and>
    win_getPrivateMemorySize None = 0"
    by (simp add: win_time_defs ProcessTimes_zero_def FILETIME_zero_def ticks_def
        win_getWorkingSetSize_def win_getPrivateMemorySize_def GetProcessMemoryInfo_def)
  have linux: "linux_getKernelProcessorTime None = 0 \<and> linux_getUserProcessorTime None = 0 \<and>
    linux_getTotalProcessorTime None = 0 \<and> linux_getWorkingSetSize None = 0 \<and>
    linux_getPrivateMemorySize None = 0"
    by (simp add: linux_time_defs rusage_zero_def linux_getWorkingSetSize_def
        linux_getPrivateMemorySize_def)
  have caught: "substr s q = Inr (drop q s) \<and>
      parseStatus s key = \<lparr>resultType = OK, val = 0\<rparr>"
    if "find_str s key = Some p \<and> find_first_of s ''0123456789'' (p + 6) = Some q \<and>
      stoll (drop q s) = Inl e" for p q e
  proof -
    from that have k: "find_str s key = Some p"
      and v: "find_first_of s ''0123456789'' (p + 6) = Some q"
      and st: "stoll (drop q s) = Inl e" by simp_all
    from find_first_of_Some [OF v] have "q < length s" by simp
    then have sub: "substr s q = Inr (drop q s)" by (simp add: substr_def)
    then show ?thesis by (simp add: parseStatus_def k v st)
  qed
  have rss: "linux_getWorkingSetSize file = 0 \<or>
    (\<exists>content l. file = Some content \<and> l \<in> set (lines_of content) \<and>
       linux_getWorkingSetSize file = val (parseStatus l ''VmRSS:'') * 1024)"
  proof (cases "file")
    case None
    then show ?thesis by (simp add: linux_getWorkingSetSize_def)
  next
    case (Some content)
    with scanStatus_cases [of "''VmRSS:''" content] show ?thesis
      unfolding linux_getWorkingSetSize_def by auto
  qed
  have size: "linux_getPrivateMemorySize file = 0 \<or>
    (\<exists>content l. file = Some content \<and> l \<in> set (lines_of content) \<and>
       linux_getPrivateMemorySize file = val (parseStatus l ''VmSize:'') * 1024)"
  proof (cases "file")
    case None
    then show ?thesis by (simp add: linux_getPrivateMemorySize_def)
  next
    case (Some content)
    with scanStatus_cases [of "''VmSize:''" content] show ?thesis
      unfolding linux_getPrivateMemorySize_def by auto
  qed
  have macmem: "mac_getWorkingSetSize None = 0 \<and> mac_getPrivateMemorySize None = 0"
    by (simp add: mac_getWorkingSetSize_def mac_getPrivateMemorySize_def proc_pidinfo_def)
  have mac: "\<exists>k u t s'.
         mac_getKernelProcessorTime tb_os static mos = Inr (k, s') \<and>
         mac_getUserProcessorTime tb_os static mos = Inr (u, s') \<and>
         mac_getTotalProcessorTime tb_os static mos = Inr (t, s') \<and>
         (mos = None \<longrightarrow> k = 0 \<and> u = 0 \<and> t = 0)"
    if d: "denom (if denom static = 0 then mach_timebase_info tb_os static else static) \<noteq> 0"
  proof -
    let ?s = "if denom static = 0 then mach_timebase_info tb_os static else static"
    from mk_ProcPidRUsageResult_ok [OF d, of "proc_pid_rusage mos rusage_info_v2_zero"]
    obtain res where r: "mk_ProcPidRUsageResult tb_os static
        (proc_pid_rusage mos rusage_info_v2_zero) = Inr (res, ?s)" by blast
    have z: "ProcPidRUsageResult.sysTime res = 0 \<and> ProcPidRUsageResult.userTime res = 0 \<and>
         ProcPidRUsageResult.totalTime res = 0" if "mos = None"
      using that r mk_ProcPidRUsageResult_zero [of tb_os static res ?s]
      by (simp add: proc_pid_rusage_def)
    from r have "mac_getKernelProcessorTime tb_os static mos =
        Inr (ProcPidRUsageResult.sysTime res, ?s)"
      and "mac_getUserProcessorTime tb_os static mos =
        Inr (ProcPidRUsageResult.userTime res, ?s)"
      and "mac_getTotalProcessorTime tb_os static mos =
        Inr (ProcPidRUsageResult.totalTime res, ?s)"
      by (simp_all add: mac_time_defs)
    with z show ?thesis by blast
  qed
  from fallback win linux caught rss size macmem mac show ?thesis by blast
qed

lemma queries_return_normally_instance:
  "stoll ''99999999999999999999 kB'' = Inl Out_of_range \<and>
   parseStatus ''VmRSS: 99999999999999999999 kB'' ''VmRSS:'' = \<lparr>resultType = OK, val = 0\<rparr> \<and>
   linux_getWorkingSetSize (Some ''VmRSS: 99999999999999999999 kB'') = 0 \<and>
   (\<exists>s'. mac_getKernelProcessorTime (Some \<lparr>numer = 125, denom = 3\<rparr>)
           \<lparr>numer = 0, denom = 0\<rparr> None = Inr (0, s') \<and>
         mac_getUserProcessorTime (Some \<lparr>numer = 125, denom = 3\<rparr>)
           \<lparr>numer = 0, denom = 0\<rparr> None = Inr (0, s') \<and>
         mac_getTotalProcessorTime (Some \<lparr>numer = 125, denom = 3\<rparr>)
           \<lparr>numer = 0, denom = 0\<rparr> None = Inr (0, s'))"
proof -
  let ?s = "''VmRSS: 99999999999999999999 kB''"
  let ?tb = "\<lparr>numer = 125, denom = 3\<rparr>"
  let ?z = "\<lparr>numer = 0, denom = 0\<rparr>"
  have k: "find_str ?s ''VmRSS:'' = Some 0" by simp
  have v: "find_first_of ?s ''0123456789'' (0 + 6) = Some 7" by (simp add: find_first_of_def)
  have st: "stoll (drop 7 ?s) = Inl Out_of_range"
    by (simp add: stoll_def is_space_def is_digit_def dec_value_def digit_val_def)
  have d: "denom (if denom ?z = 0 then mach_timebase_info (Some ?tb) ?z else ?z) \<noteq> 0"
    by (simp add: mach_timebase_info_def)
  note th = queries_return_normally
    [of ?s "''VmRSS:''" "Some ?s" ?z "Some ?tb" None]
  from th k v st have p: "parseStatus ?s ''VmRSS:'' = \<lparr>resultType = OK, val = 0\<rparr>"
    by blast
  from th d have m: "\<exists>s'. mac_getKernelProcessorTime (Some ?tb) ?z None = Inr (0, s') \<and>
         mac_getUserProcessorTime (Some ?tb) ?z None = Inr (0, s') \<and>
         mac_getTotalProcessorTime (Some ?tb) ?z None = Inr (0, s')"
    by blast
  have w: "linux_getWorkingSetSize (Some ?s) = 0"
    by (simp add: linux_getWorkingSetSize_def scanStatus.simps p)
  from st have st': "stoll ''99999999999999999999 kB'' = Inl Out_of_range" by simp
  from st' p w m show ?thesis by (simp only:)
qed


subsection \<open>C4\<close>

text \<open>
  Claim C4.  On Linux, for every \<open>rusage\<close> the operating system delivers, the kernel
  time is \<open>ru_stime.tv_sec * 1000 + ru_stime.tv_usec / 1000\<close> and the user time is
  \<open>ru_utime.tv_sec * 1000 + ru_utime.tv_usec / 1000\<close>, the division dropping the
  remainder, and the total is the sum of the two.  In the 64-bit unsigned arithmetic of
  the code this holds for every bit pattern of the four fields.  For fields that are
  not negative and results that fit the signed 64-bit tick count, the counts of the
  three durations are these numbers exactly.
\<close>

theorem linux_processor_time_conversion:
  "unat (linux_getKernelProcessorTime (Some ru)) =
     (unat (tv_sec (ru_stime ru)) * 1000 + unat (tv_usec (ru_stime ru)) div 1000) mod 2 ^ 64 \<and>
   unat (linux_getUserProcessorTime (Some ru)) =
     (unat (tv_sec (ru_utime ru)) * 1000 + unat (tv_usec (ru_utime ru)) div 1000) mod 2 ^ 64 \<and>
   linux_getTotalProcessorTime (Some ru) =
     linux_getKernelProcessorTime (Some ru) + linux_getUserProcessorTime (Some ru) \<and>
   (0 \<le> sint (tv_sec (ru_stime ru)) \<and> 0 \<le> sint (tv_usec (ru_stime ru)) \<and>
    0 \<le> sint (tv_sec (ru_utime ru)) \<and> 0 \<le> sint (tv_usec (ru_utime ru)) \<and>
    (sint (tv_sec (ru_stime ru)) * 1000 + sint (tv_usec (ru_stime ru)) div 1000) +
    (sint (tv_sec (ru_utime ru)) * 1000 + sint (tv_usec (ru_utime ru)) div 1000) < 2 ^ 63 \<longrightarrow>
      count (linux_getKernelProcessorTime (Some ru)) =
        sint (tv_sec (ru_stime ru)) * 1000 + sint (tv_usec (ru_stime ru)) div 1000 \<and>
      count (linux_getUserProcessorTime (Some ru)) =
        sint (tv_sec (ru_utime ru)) * 1000 + sint (tv_usec (ru_utime ru)) div 1000 \<and>
      count (linux_getTotalProcessorTime (Some ru)) =
        count (linux_getKernelProcessorTime (Some ru)) +
        count (linux_getUserProcessorTime (Some ru)))"
proof -
  let ?ss = "tv_sec (ru_stime ru)" and ?su = "tv_usec (ru_stime ru)"
  let ?us = "tv_sec (ru_utime ru)" and ?uu = "tv_usec (ru_utime ru)"
  let ?k = "?ss * 1000 + ?su div 1000" and ?u = "?us * 1000 + ?uu div 1000"
  have k: "linux_getKernelProcessorTime (Some ru) = ?k" by (simp add: linux_time_defs)
  have u: "linux_getUserProcessorTime (Some ru) = ?u" by (simp add: linux_time_defs)
  have t: "linux_getTotalProcessorTime (Some ru) = ?k + ?u" by (simp add: linux_time_defs)
  have exact: "count ?k = sint ?ss * 1000 + sint ?su div 1000 \<and>
               count ?u = sint ?us * 1000 + sint ?uu div 1000 \<and>
               count (?k + ?u) = count ?k + count ?u"
    if h: "0 \<le> sint ?ss \<and> 0 \<le> sint ?su \<and> 0 \<le> sint ?us \<and> 0 \<le> sint ?uu \<and>
           (sint ?ss * 1000 + sint ?su div 1000) + (sint ?us * 1000 + sint ?uu div 1000) < 2 ^ 63"
  proof -
    from h have nn: "0 \<le> sint ?ss" "0 \<le> sint ?su" "0 \<le> sint ?us" "0 \<le> sint ?uu"
      and b: "(sint ?ss * 1000 + sint ?su div 1000) + (sint ?us * 1000 + sint ?uu div 1000) < 2 ^ 63"
      by simp_all
    have kn: "0 \<le> sint ?ss * 1000 + sint ?su div 1000"
      using nn by (simp add: pos_imp_zdiv_nonneg_iff)
    have un: "0 \<le> sint ?us * 1000 + sint ?uu div 1000"
      using nn by (simp add: pos_imp_zdiv_nonneg_iff)
    from b un have kb: "sint ?ss * 1000 + sint ?su div 1000 < 2 ^ 63" by linarith
    from b kn have ub: "sint ?us * 1000 + sint ?uu div 1000 < 2 ^ 63" by linarith
    have ck: "count ?k = sint ?ss * 1000 + sint ?su div 1000"
      using nn(1,2) kb by (rule count_ms)
    have cu: "count ?u = sint ?us * 1000 + sint ?uu div 1000"
      using nn(3,4) ub by (rule count_ms)
    have "count (?k + ?u) = count ?k + count ?u"
      by (rule count_add) (simp_all only: ck cu kn un b)
    with ck cu show ?thesis by simp
  qed
  show ?thesis
    unfolding k u t using exact by (simp add: unat_ms)
qed

text \<open>
  The instance: 1999 microseconds become 1 millisecond (rounding to the nearest would
  give 2), 500999 microseconds become 500.
\<close>

theorem linux_processor_time_conversion_witness:
  "linux_getKernelProcessorTime
     (Some \<lparr>ru_utime = \<lparr>tv_sec = 3, tv_usec = 500999\<rparr>,
            ru_stime = \<lparr>tv_sec = 2, tv_usec = 1999\<rparr>\<rparr>) = 2001 \<and>
   count (linux_getKernelProcessorTime
     (Some \<lparr>ru_utime = \<lparr>tv_sec = 3, tv_usec = 500999\<rparr>,
            ru_stime = \<lparr>tv_sec = 2, tv_usec = 1999\<rparr>\<rparr>)) = 2 * 1000 + 1999 div 1000 \<and>
   count (linux_getUserProcessorTime
     (Some \<lparr>ru_utime = \<lparr>tv_sec = 3, tv_usec = 500999\<rparr>,
            ru_stime = \<lparr>tv_sec = 2, tv_usec = 1999\<rparr>\<rparr>)) = 3500 \<and>
   count (linux_getTotalProcessorTime
     (Some \<lparr>ru_utime = \<lparr>tv_sec = 3, tv_usec = 500999\<rparr>,
            ru_stime = \<lparr>tv_sec = 2, tv_usec = 1999\<rparr>\<rparr>)) = 5501"
proof -
  let ?ru = "\<lparr>ru_utime = \<lparr>tv_sec = 3, tv_usec = 500999\<rparr>,
             ru_stime = \<lparr>tv_sec = 2, tv_usec = 1999\<rparr>\<rparr>"
  have k: "linux_getKernelProcessorTime (Some ?ru) = 2001" by (simp add: linux_time_defs)
  have h: "0 \<le> sint (tv_sec (ru_stime ?ru)) \<and> 0 \<le> sint (tv_usec (ru_stime ?ru)) \<and>
    0 \<le> sint (tv_sec (ru_utime ?ru)) \<and> 0 \<le> sint (tv_usec (ru_utime ?ru)) \<and>
    (sint (tv_sec (ru_stime ?ru)) * 1000 + sint (tv_usec (ru_stime ?ru)) div 1000) +
    (sint (tv_sec (ru_utime ?ru)) * 1000 + sint (tv_usec (ru_utime ?ru)) div 1000) < 2 ^ 63"
    by simp
  from linux_processor_time_conversion [of ?ru] h
  have "count (linux_getKernelProcessorTime (Some ?ru)) =
        sint (tv_sec (ru_stime ?ru)) * 1000 + sint (tv_usec (ru_stime ?ru)) div 1000"
    and "count (linux_getUserProcessorTime (Some ?ru)) =
        sint (tv_sec (ru_utime ?ru)) * 1000 + sint (tv_usec (ru_utime ?ru)) div 1000"
    and "count (linux_getTotalProcessorTime (Some ?ru)) =
        count (linux_getKernelProcessorTime (Some ?ru)) +
        count (linux_getUserProcessorTime (Some ?ru))"
    by blast+
  with k show ?thesis by simp
qed

subsection \<open>C5\<close>

text \<open>
  Claim C5.  The parser, given the line \<open>VmRSS:      1234 kB\<close> and the key \<open>VmRSS:\<close>,
  returns the result type \<open>OK\<close> with the value 1234; the working-set query on a
  pseudo-file made of that line (with or without its line feed) multiplies by 1024 and
  returns 1263616.
\<close>

theorem fixture_line_1234:
  "parseStatus ''VmRSS:      1234 kB'' ''VmRSS:'' = \<lparr>resultType = OK, val = 1234\<rparr> \<and>
   val (parseStatus ''VmRSS:      1234 kB'' ''VmRSS:'') * 1024 = 1263616 \<and>
   linux_getWorkingSetSize (Some ''VmRSS:      1234 kB'') = 1263616 \<and>
   linux_getWorkingSetSize (Some (''VmRSS:      1234 kB'' @ [CHR 0x0A])) = 1263616"
proof -
  have p: "parseStatus ''VmRSS:      1234 kB'' ''VmRSS:'' = \<lparr>resultType = OK, val = 1234\<rparr>"
    by (simp add: parser_eval)
  have a: "linux_getWorkingSetSize (Some ''VmRSS:      1234 kB'') = 1263616"
    by (simp add: linux_getWorkingSetSize_def scanStatus.simps p)
  have b: "linux_getWorkingSetSize (Some (''VmRSS:      1234 kB'' @ [CHR 0x0A])) = 1263616"
    by (simp add: linux_getWorkingSetSize_def scanStatus.simps p)
  from p a b show ?thesis by simp
qed

subsection \<open>C6\<close>

text \<open>
  Claim C6.  A line that holds the key (its first occurrence starting at index \<open>p\<close>)
  and no digit at index \<open>p + 6\<close> or later makes the parser return \<open>VALUE_NOT_FOUND\<close>
  with the value 0.  When that line is the first line of the pseudo-file that holds the
  key, the memory query returns 0 whatever the lines after it are: the scan stops
  there.
\<close>

theorem value_not_found_stops_scan:
  assumes k: "find_str s key = Some p"
    and nd: "\<forall>i. p + 6 \<le> i \<and> i < length s \<longrightarrow> \<not> is_digit (s ! i)"
  shows "parseStatus s key = \<lparr>resultType = VALUE_NOT_FOUND, val = 0\<rparr> \<and>
         (\<forall>content pre post.
            lines_of content = pre @ s # post \<and> (\<forall>l\<in>set pre. find_str l key = None) \<longrightarrow>
            (key = ''VmRSS:'' \<longrightarrow> linux_getWorkingSetSize (Some content) = 0) \<and>
            (key = ''VmSize:'' \<longrightarrow> linux_getPrivateMemorySize (Some content) = 0))"
proof -
  from nd have "find_first_of s ''0123456789'' (p + 6) = None"
    by (simp add: find_first_of_None_iff is_digit_def)
  with k have ps: "parseStatus s key = \<lparr>resultType = VALUE_NOT_FOUND, val = 0\<rparr>"
    by (rule parseStatus_VALUE_NOT_FOUND)
  have sc: "scanStatus key content = 0"
    if "lines_of content = pre @ s # post" "\<forall>l\<in>set pre. find_str l key = None"
    for content pre post
    using scanStatus_first_hit [OF that] k ps by simp
  have "(key = ''VmRSS:'' \<longrightarrow> linux_getWorkingSetSize (Some content) = 0) \<and>
        (key = ''VmSize:'' \<longrightarrow> linux_getPrivateMemorySize (Some content) = 0)"
    if "lines_of content = pre @ s # post \<and> (\<forall>l\<in>set pre. find_str l key = None)"
    for content pre post
    using sc [of content pre post] that
    by (auto simp: linux_getWorkingSetSize_def linux_getPrivateMemorySize_def)
  with ps show ?thesis by blast
qed

text \<open>
  The instance: the second line holds the key and no digit, and the third line, which
  would parse to 5, is never looked at.
\<close>

theorem value_not_found_stops_scan_witness:
  "find_str ''VmRSS:    '' ''VmRSS:'' = Some 0 \<and>
   parseStatus ''VmRSS:    '' ''VmRSS:'' = \<lparr>resultType = VALUE_NOT_FOUND, val = 0\<rparr> \<and>
   lines_of (''Name: x'' @ [CHR 0x0A] @ ''VmRSS:    '' @ [CHR 0x0A] @ ''VmRSS: 5 kB'' @ [CHR 0x0A])
     = [''Name: x'', ''VmRSS:    '', ''VmRSS: 5 kB''] \<and>
   parseStatus ''VmRSS: 5 kB'' ''VmRSS:'' = \<lparr>resultType = OK, val = 5\<rparr> \<and>
   linux_getWorkingSetSize
     (Some (''Name: x'' @ [CHR 0x0A] @ ''VmRSS:    '' @ [CHR 0x0A] @ ''VmRSS: 5 kB'' @ [CHR 0x0A])) = 0"
proof -
  let ?s = "''VmRSS:    ''"
  let ?c = "''Name: x'' @ [CHR 0x0A] @ ''VmRSS:    '' @ [CHR 0x0A] @ ''VmRSS: 5 kB'' @ [CHR 0x0A]"
  have k: "find_str ?s ''VmRSS:'' = Some 0" by simp
  have "find_first_of ?s ''0123456789'' (0 + 6) = None" by (simp add: find_first_of_def)
  then have nd: "\<forall>i. 0 + 6 \<le> i \<and> i < length ?s \<longrightarrow> \<not> is_digit (?s ! i)"
    unfolding find_first_of_None_iff is_digit_def .
  have l: "lines_of ?c = [''Name: x''] @ ?s # [''VmRSS: 5 kB'']"
    by (simp add: lines_of.simps)
  have pre: "\<forall>l\<in>set [''Name: x'']. find_str l ''VmRSS:'' = None" by simp
  have later: "parseStatus ''VmRSS: 5 kB'' ''VmRSS:'' = \<lparr>resultType = OK, val = 5\<rparr>"
    by (simp add: parser_eval)
  from value_not_found_stops_scan [OF k nd] l pre
  have "parseStatus ?s ''VmRSS:'' = \<lparr>resultType = VALUE_NOT_FOUND, val = 0\<rparr>"
    and "linux_getWorkingSetSize (Some ?c) = 0" by blast+
  with k l later show ?thesis by simp
qed

subsection \<open>C7\<close>

text \<open>
  Claim C7.  When the pseudo-file cannot be opened, both memory queries return 0; no
  stream exists, so no line is read.  A line in which the key does not occur gives
  \<open>KEY_NOT_FOUND\<close>, and the scan goes on with the rest of the stream after that line.
  When nothing is left to read the queries return 0.  So for every text of the
  pseudo-file in which no line holds the key, every line gives \<open>KEY_NOT_FOUND\<close> and
  the query returns 0.
\<close>

theorem key_absent_returns_zero:
  "linux_getWorkingSetSize None = 0 \<and> linux_getPrivateMemorySize None = 0 \<and>
   ((\<forall>u v. s \<noteq> u @ key @ v) \<longrightarrow>
      parseStatus s key = \<lparr>resultType = KEY_NOT_FOUND, val = 0\<rparr> \<and>
      (\<forall>is is'. getline is = Some (s, is') \<longrightarrow> scanStatus key is = scanStatus key is')) \<and>
   (getline content = None \<longrightarrow>
      linux_getWorkingSetSize (Some content) = 0 \<and> linux_getPrivateMemorySize (Some content) = 0) \<and>
   ((\<forall>l\<in>set (lines_of content). \<forall>u v. l \<noteq> u @ ''VmRSS:'' @ v) \<longrightarrow>
      (\<forall>l\<in>set (lines_of content).
         parseStatus l ''VmRSS:'' = \<lparr>resultType = KEY_NOT_FOUND, val = 0\<rparr>) \<and>
      linux_getWorkingSetSize (Some content) = 0) \<and>
   ((\<forall>l\<in>set (lines_of content). \<forall>u v. l \<noteq> u @ ''VmSize:'' @ v) \<longrightarrow>
      (\<forall>l\<in>set (lines_of content).
         parseStatus l ''VmSize:'' = \<lparr>resultType = KEY_NOT_FOUND, val = 0\<rparr>) \<and>
      linux_getPrivateMemorySize (Some content) = 0)"
proof -
  have unopened: "linux_getWorkingSetSize None = 0 \<and> linux_getPrivateMemorySize None = 0"
    by (simp add: linux_getWorkingSetSize_def linux_getPrivateMemorySize_def)
  have line: "parseStatus s key = \<lparr>resultType = KEY_NOT_FOUND, val = 0\<rparr> \<and>
      (\<forall>is is'. getline is = Some (s, is') \<longrightarrow> scanStatus key is = scanStatus key is')"
    if "\<forall>u v. s \<noteq> u @ key @ v"
  proof -
    from that have n: "find_str s key = None" by (simp add: find_str_None_iff)
    then show ?thesis
      using parseStatus_KEY_NOT_FOUND [OF n] scanStatus_skip [OF _ n] by blast
  qed
  have eof: "linux_getWorkingSetSize (Some content) = 0 \<and>
             linux_getPrivateMemorySize (Some content) = 0"
    if "getline content = None"
    using that
    by (simp add: linux_getWorkingSetSize_def linux_getPrivateMemorySize_def scanStatus_eof)
  have absent: "(\<forall>l\<in>set (lines_of content).
         parseStatus l k = \<lparr>resultType = KEY_NOT_FOUND, val = 0\<rparr>) \<and>
      scanStatus k content = 0"
    if "\<forall>l\<in>set (lines_of content). \<forall>u v. l \<noteq> u @ k @ v" for k
  proof -
    from that have n: "\<forall>l\<in>set (lines_of content). find_str l k = None"
      by (simp add: find_str_None_iff)
    then show ?thesis
      using scanStatus_no_key [OF n] by (simp add: parseStatus_KEY_NOT_FOUND)
  qed
  have rss: "(\<forall>l\<in>set (lines_of content).
         parseStatus l ''VmRSS:'' = \<lparr>resultType = KEY_NOT_FOUND, val = 0\<rparr>) \<and>
      linux_getWorkingSetSize (Some content) = 0"
    if "\<forall>l\<in>set (lines_of content). \<forall>u v. l \<noteq> u @ ''VmRSS:'' @ v"
    using absent [OF that] by (simp add: linux_getWorkingSetSize_def)
  have size: "(\<forall>l\<in>set (lines_of content).
         parseStatus l ''VmSize:'' = \<lparr>resultType = KEY_NOT_FOUND, val = 0\<rparr>) \<and>
      linux_getPrivateMemorySize (Some content) = 0"
    if "\<forall>l\<in>set (lines_of content). \<forall>u v. l \<noteq> u @ ''VmSize:'' @ v"
    using absent [OF that] by (simp add: linux_getPrivateMemorySize_def)
  from unopened line eof rss size show ?thesis by blast
qed

theorem key_absent_returns_zero_witness:
  "lines_of (''Name: x'' @ [CHR 0x0A] @ ''Pid: 12'' @ [CHR 0x0A]) = [''Name: x'', ''Pid: 12''] \<and>
   parseStatus ''Name: x'' ''VmRSS:'' = \<lparr>resultType = KEY_NOT_FOUND, val = 0\<rparr> \<and>
   parseStatus ''Pid: 12'' ''VmSize:'' = \<lparr>resultType = KEY_NOT_FOUND, val = 0\<rparr> \<and>
   linux_getWorkingSetSize (Some (''Name: x'' @ [CHR 0x0A] @ ''Pid: 12'' @ [CHR 0x0A])) = 0 \<and>
   linux_getPrivateMemorySize (Some (''Name: x'' @ [CHR 0x0A] @ ''Pid: 12'' @ [CHR 0x0A])) = 0"
proof -
  let ?c = "''Name: x'' @ [CHR 0x0A] @ ''Pid: 12'' @ [CHR 0x0A]"
  have l: "lines_of ?c = [''Name: x'', ''Pid: 12'']"
    by (simp add: lines_of.simps)
  have a1: "\<forall>u v. ''Name: x'' \<noteq> u @ ''VmRSS:'' @ v"
    by (rule iffD1 [OF find_str_None_iff]) simp
  have a2: "\<forall>u v. ''Pid: 12'' \<noteq> u @ ''VmRSS:'' @ v"
    by (rule iffD1 [OF find_str_None_iff]) simp
  have b1: "\<forall>u v. ''Name: x'' \<noteq> u @ ''VmSize:'' @ v"
    by (rule iffD1 [OF find_str_None_iff]) simp
  have b2: "\<forall>u v. ''Pid: 12'' \<noteq> u @ ''VmSize:'' @ v"
    by (rule iffD1 [OF find_str_None_iff]) simp
  have rss: "\<forall>l\<in>set (lines_of ?c). \<forall>u v. l \<noteq> u @ ''VmRSS:'' @ v"
    unfolding l using a1 a2 by simp
  have size: "\<forall>l\<in>set (lines_of ?c). \<forall>u v. l \<noteq> u @ ''VmSize:'' @ v"
    unfolding l using b1 b2 by simp
  from key_absent_returns_zero [of "''Name: x''" "''VmRSS:''" ?c] a1 rss size
  have "parseStatus ''Name: x'' ''VmRSS:'' = \<lparr>resultType = KEY_NOT_FOUND, val = 0\<rparr>"
    and "linux_getWorkingSetSize (Some ?c) = 0"
    and "linux_getPrivateMemorySize (Some ?c) = 0"
    and "\<forall>l\<in>set (lines_of ?c).
           parseStatus l ''VmSize:'' = \<lparr>resultType = KEY_NOT_FOUND, val = 0\<rparr>"
    by blast+
  with l show ?thesis by simp
qed

subsection \<open>C8\<close>

text \<open>
  Claim C8.  On Windows, the 64-bit duration built from a \<open>FILETIME\<close> has the low
  word in its bits 0 to 31 and the high word in its bits 32 to 63, so its value is
  \<open>low + 2^32 * high\<close>, counted in ticks of 100 nanoseconds.  The kernel and the user
  time are this value divided by 10000, the remainder dropped.
\<close>

theorem windows_filetime_to_milliseconds:
  "(\<forall>n. bit (ticks ft) n =
      (if n < 32 then bit (dwLowDateTime ft) n
       else n < 64 \<and> bit (dwHighDateTime ft) (n - 32))) \<and>
   unat (ticks ft) = unat (dwLowDateTime ft) + 2 ^ 32 * unat (dwHighDateTime ft) \<and>
   win_getKernelProcessorTime (Some t) = ticks (lpKernelTime t) div 10000 \<and>
   win_getUserProcessorTime (Some t) = ticks (lpUserTime t) div 10000 \<and>
   count (win_getKernelProcessorTime (Some t)) =
     int ((unat (dwLowDateTime (lpKernelTime t)) +
           2 ^ 32 * unat (dwHighDateTime (lpKernelTime t))) div 10000) \<and>
   count (win_getUserProcessorTime (Some t)) =
     int ((unat (dwLowDateTime (lpUserTime t)) +
           2 ^ 32 * unat (dwHighDateTime (lpUserTime t))) div 10000)"
proof -
  have b: "\<forall>n. bit (ticks ft) n =
      (if n < 32 then bit (dwLowDateTime ft) n
       else n < 64 \<and> bit (dwHighDateTime ft) (n - 32))"
    using bit_ticks [of ft] by blast
  have k: "win_getKernelProcessorTime (Some t) = ticks (lpKernelTime t) div 10000"
    by (simp add: win_time_defs)
  have u: "win_getUserProcessorTime (Some t) = ticks (lpUserTime t) div 10000"
    by (simp add: win_time_defs)
  have ck: "count (win_getKernelProcessorTime (Some t)) =
     int ((unat (dwLowDateTime (lpKernelTime t)) +
           2 ^ 32 * unat (dwHighDateTime (lpKernelTime t))) div 10000)"
    unfolding k by (simp only: count_div_10000 unat_ticks)
  have cu: "count (win_getUserProcessorTime (Some t)) =
     int ((unat (dwLowDateTime (lpUserTime t)) +
           2 ^ 32 * unat (dwHighDateTime (lpUserTime t))) div 10000)"
    unfolding u by (simp only: count_div_10000 unat_ticks)
  from b unat_ticks [of ft] k u ck cu show ?thesis by blast
qed

text \<open>
  The instance: high word 1 and low word 5000 are \<open>2^32 + 5000\<close> ticks, 429497
  milliseconds; 29999 ticks are 2 milliseconds.
\<close>

theorem windows_filetime_to_milliseconds_witness:
  "ticks \<lparr>dwLowDateTime = 5000, dwHighDateTime = 1\<rparr> = 4294972296 \<and>
   count (win_getKernelProcessorTime
     (Some \<lparr>lpCreationTime = FILETIME_zero, lpExitTime = FILETIME_zero,
            lpKernelTime = \<lparr>dwLowDateTime = 5000, dwHighDateTime = 1\<rparr>,
            lpUserTime = \<lparr>dwLowDateTime = 29999, dwHighDateTime = 0\<rparr>\<rparr>)) = 429497 \<and>
   count (win_getUserProcessorTime
     (Some \<lparr>lpCreationTime = FILETIME_zero, lpExitTime = FILETIME_zero,
            lpKernelTime = \<lparr>dwLowDateTime = 5000, dwHighDateTime = 1\<rparr>,
            lpUserTime = \<lparr>dwLowDateTime = 29999, dwHighDateTime = 0\<rparr>\<rparr>)) = 2"
proof -
  let ?t = "\<lparr>lpCreationTime = FILETIME_zero, lpExitTime = FILETIME_zero,
            lpKernelTime = \<lparr>dwLowDateTime = 5000, dwHighDateTime = 1\<rparr>,
            lpUserTime = \<lparr>dwLowDateTime = 29999, dwHighDateTime = 0\<rparr>\<rparr>"
  have tk: "ticks \<lparr>dwLowDateTime = 5000, dwHighDateTime = 1\<rparr> = 4294972296"
    by (simp add: ticks_def)
  from windows_filetime_to_milliseconds [of "lpKernelTime ?t" ?t]
  have "count (win_getKernelProcessorTime (Some ?t)) =
     int ((unat (dwLowDateTime (lpKernelTime ?t)) +
           2 ^ 32 * unat (dwHighDateTime (lpKernelTime ?t))) div 10000)"
   and "count (win_getUserProcessorTime (Some ?t)) =
     int ((unat (dwLowDateTime (lpUserTime ?t)) +
           2 ^ 32 * unat (dwHighDateTime (lpUserTime ?t))) div 10000)"
    by blast+
  with tk show ?thesis by simp
qed

subsection \<open>C9\<close>



subsection \<open>C10\<close>

text \<open>
  Claim C10.  The memory queries return the value parsed from the first line in which
  the key occurs as a substring, at whatever position (\<open>s = u @ key @ v\<close>), times 1024;
  the lines after it do not matter: every pseudo-file with the same lines up to and
  including that one gives the same result.
\<close>

theorem first_matching_line_decides:
  assumes l: "lines_of content = pre @ s # post"
    and pre: "\<forall>l\<in>set pre. \<forall>u v. l \<noteq> u @ key @ v"
    and s: "s = u @ key @ v"
  shows "(key = ''VmRSS:'' \<longrightarrow>
            linux_getWorkingSetSize (Some content) = val (parseStatus s ''VmRSS:'') * 1024 \<and>
            (\<forall>content' post'. lines_of content' = pre @ s # post' \<longrightarrow>
               linux_getWorkingSetSize (Some content') = linux_getWorkingSetSize (Some content))) \<and>
         (key = ''VmSize:'' \<longrightarrow>
            linux_getPrivateMemorySize (Some content) = val (parseStatus s ''VmSize:'') * 1024 \<and>
            (\<forall>content' post'. lines_of content' = pre @ s # post' \<longrightarrow>
               linux_getPrivateMemorySize (Some content') = linux_getPrivateMemorySize (Some content)))"
proof -
  from pre have n: "\<forall>l\<in>set pre. find_str l key = None" by (simp add: find_str_None_iff)
  from s have f: "find_str s key \<noteq> None" by (auto simp: find_str_None_iff)
  have sc: "scanStatus key c = val (parseStatus s key) * 1024"
    if "lines_of c = pre @ s # p" for c p
    using scanStatus_first_hit [OF that n f] .
  have here: "scanStatus key content = val (parseStatus s key) * 1024"
    using sc [OF l] .
  have other: "\<forall>content' post'. lines_of content' = pre @ s # post' \<longrightarrow>
      scanStatus key content' = scanStatus key content"
    using sc here by simp
  from here other show ?thesis
    by (auto simp: linux_getWorkingSetSize_def linux_getPrivateMemorySize_def)
qed

text \<open>The instance: the key starts at index 2 of the second line.\<close>

theorem first_matching_line_decides_witness:
  "lines_of (''Pid: 12'' @ [CHR 0x0A] @ ''xxVmRSS:  7 kB'' @ [CHR 0x0A] @ ''VmRSS: 5 kB'')
     = [''Pid: 12'', ''xxVmRSS:  7 kB'', ''VmRSS: 5 kB''] \<and>
   find_str ''xxVmRSS:  7 kB'' ''VmRSS:'' = Some 2 \<and>
   val (parseStatus ''xxVmRSS:  7 kB'' ''VmRSS:'') = 7 \<and>
   linux_getWorkingSetSize
     (Some (''Pid: 12'' @ [CHR 0x0A] @ ''xxVmRSS:  7 kB'' @ [CHR 0x0A] @ ''VmRSS: 5 kB'')) = 7168"
proof -
  let ?s = "''xxVmRSS:  7 kB''"
  let ?c = "''Pid: 12'' @ [CHR 0x0A] @ ''xxVmRSS:  7 kB'' @ [CHR 0x0A] @ ''VmRSS: 5 kB''"
  have l: "lines_of ?c = [''Pid: 12''] @ ?s # [''VmRSS: 5 kB'']"
    by (simp add: lines_of.simps)
  have "\<forall>u v. ''Pid: 12'' \<noteq> u @ ''VmRSS:'' @ v"
    by (rule iffD1 [OF find_str_None_iff]) simp
  then have pre: "\<forall>l\<in>set [''Pid: 12'']. \<forall>u v. l \<noteq> u @ ''VmRSS:'' @ v"
    by simp
  have s: "?s = ''xx'' @ ''VmRSS:'' @ ''  7 kB''" by simp
  have p: "parseStatus ?s ''VmRSS:'' = \<lparr>resultType = OK, val = 7\<rparr>"
    by (simp add: parser_eval)
  from first_matching_line_decides [OF l pre s]
  have "linux_getWorkingSetSize (Some ?c) = val (parseStatus ?s ''VmRSS:'') * 1024"
    by simp
  with l p show ?thesis by simp
qed

end
